theory Spec2Isabelle
  imports Complex_Main "HOL-Library.Word"
begin

chapter \<open>video2mesh: frame-pair sampling, correspondence extraction and camera geometry\<close>

text \<open>
  A shallow embedding of \<^verbatim>\<open>Video2mesh/pose_refinement.py\<close> and
  \<^verbatim>\<open>Video2mesh/geometry.py\<close>. Python integers are \<open>int\<close> (counts and
  indices produced by \<^verbatim>\<open>range\<close> are \<open>nat\<close>), a float is read as the real number
  it denotes (\<^verbatim>\<open>nan\<close> and the infinities are not among the values), and every
  exception of the source is a value of type \<open>error\<close> on the left of a sum. The product
  in the ratio test of \<^verbatim>\<open>_filter_matches\<close> is rounded as the program rounds it; the
  camera geometry is taken over exact arithmetic.
\<close>

section \<open>Exceptions\<close>

datatype error =
    ValueError
  | OverflowError
  | IndexError
  | ZeroDivisionError
  | TypeError
  | AttributeError
  | LinAlgError
  | ShapeError
  | NonFinite

text \<open>
  The first six are Python's own exceptions and \<open>LinAlgError\<close> is NumPy's.
  \<open>NonFinite\<close> is not an exception: NumPy divides by zero without raising and
  yields \<^verbatim>\<open>inf\<close> or \<^verbatim>\<open>nan\<close>; such a result has no reading as a real
  number and the model marks it instead of inventing a value.
\<close>

text \<open>
  Modelled from the spec: \<^verbatim>\<open>validate_shape\<close> (\<^verbatim>\<open>Video2mesh.utils\<close>) is not part
  of the sources; the specification has it fail with a \<open>ShapeError\<close> on a mismatch of
  shapes, which is the constructor \<open>ShapeError\<close> above.
\<close>

section \<open>Python and NumPy primitives\<close>

text \<open>Indexing a list or tuple: a negative index counts from the end, anything else out of
  range raises IndexError.\<close>

definition py_index :: "'a list \<Rightarrow> int \<Rightarrow> error + 'a" where
  "py_index xs i =
     (let k = (if i < 0 then i + int (length xs) else i) in
      if k < 0 \<or> int (length xs) \<le> k then Inl IndexError else Inr (xs ! nat k))"

text \<open>\<^verbatim>\<open>round(x)\<close> on a float, and \<^verbatim>\<open>np.round\<close>: to the nearest integer, a tie to
  the even one.\<close>

definition py_round :: "real \<Rightarrow> int" where
  "py_round x =
     (let f = \<lfloor>x\<rfloor>; r = x - of_int f in
      if r < 1 / 2 then f
      else if 1 / 2 < r then f + 1
      else if even f then f else f + 1)"

text \<open>\<^verbatim>\<open>a[mask]\<close> for a boolean array \<open>mask\<close>: the entries where the mask is true;
  the mask must be as long as the first axis of \<open>a\<close>.\<close>

definition boolean_mask :: "bool list \<Rightarrow> 'a list \<Rightarrow> error + 'a list" where
  "boolean_mask bs xs =
     (if length bs \<noteq> length xs then Inl IndexError
      else Inr (map snd (filter fst (zip bs xs))))"

text \<open>A \<^verbatim>\<open>for\<close> loop whose body may raise: the first exception ends the loop.\<close>

fun fold_err :: "('a \<Rightarrow> 's \<Rightarrow> error + 's) \<Rightarrow> 'a list \<Rightarrow> 's \<Rightarrow> error + 's" where
  "fold_err f [] s = Inr s"
| "fold_err f (x # xs) s = (case f x s of Inl e \<Rightarrow> Inl e | Inr s' \<Rightarrow> fold_err f xs s')"

subsection \<open>Double-precision products\<close>

text \<open>
  A Python float is an IEEE 754 double and is read as the real number it denotes. Where a
  branch of the program depends on the rounding of a floating-point operation, the
  rounding is part of the model: the result of the operation is the double nearest to
  the exact result, a tie going to the double with the even significand.

  \<open>binade fuel x 0\<close> is the exponent \<open>e\<close> with \<open>2 ^ e \<le> x < 2 ^ (e + 1)\<close> of a positive
  \<open>x\<close>, found by halving or doubling; the exponents of the doubles lie between \<open>-1074\<close>
  and \<open>1023\<close>, so \<open>2200\<close> steps are enough. The doubles in \<open>[2 ^ e, 2 ^ (e + 1))\<close> are
  the multiples of \<open>2 ^ (e - 52)\<close>; below \<open>2 ^ (-1022)\<close> (the subnormal range) the
  spacing stays \<open>2 ^ (-1074)\<close>. A result beyond the largest double is left at its real
  value, which compares with every double as the infinity that IEEE returns would.
\<close>

fun binade :: "nat \<Rightarrow> real \<Rightarrow> int \<Rightarrow> int" where
  "binade 0 x e = e"
| "binade (Suc fuel) x e =
     (if 2 \<le> x then binade fuel (x / 2) (e + 1)
      else if x < 1 then binade fuel (x * 2) (e - 1)
      else e)"

definition round_double :: "real \<Rightarrow> real" where
  "round_double x =
     (if x = 0 then 0
      else let e = max (binade 2200 \<bar>x\<bar> 0) (- 1022);
               ulp = 2 powi (e - 52)
           in of_int (py_round (x / ulp)) * ulp)"

text \<open>\<^verbatim>\<open>a * b\<close> on two floats.\<close>

definition double_mul :: "real \<Rightarrow> real \<Rightarrow> real" where
  "double_mul a b = round_double (a * b)"

text \<open>The literal \<^verbatim>\<open>0.7\<close>: the double nearest to seven tenths, a little below it.\<close>

definition double_0_7 :: real where
  "double_0_7 = 6305039478318694 / 2 ^ 53"

section \<open>Camera geometry (\<^verbatim>\<open>geometry.py\<close>)\<close>

text \<open>
  A point of an image is \<open>(x, y)\<close>, a point of space \<open>(x, y, z)\<close>, a \<open>3 \<times> 3\<close> matrix
  the triple of its rows. An \<open>(n, 3)\<close> array of points is a list of points, so the shapes
  that \<^verbatim>\<open>validate_shape\<close> and \<^verbatim>\<open>validate_camera_parameter_shapes\<close> check
  hold by typing; the one check that remains is that there are as many depths as points.
\<close>

type_synonym point = "real \<times> real"
type_synonym vec3 = "real \<times> real \<times> real"
type_synonym mat3 = "vec3 \<times> vec3 \<times> vec3"

definition dot3 :: "vec3 \<Rightarrow> vec3 \<Rightarrow> real" where
  "dot3 a b = (case a of (a1, a2, a3) \<Rightarrow> case b of (b1, b2, b3) \<Rightarrow> a1 * b1 + a2 * b2 + a3 * b3)"

definition mat_vec :: "mat3 \<Rightarrow> vec3 \<Rightarrow> vec3" where
  "mat_vec M v = (case M of (r1, r2, r3) \<Rightarrow> (dot3 r1 v, dot3 r2 v, dot3 r3 v))"

definition vec_add :: "vec3 \<Rightarrow> vec3 \<Rightarrow> vec3" where
  "vec_add a b = (case a of (a1, a2, a3) \<Rightarrow> case b of (b1, b2, b3) \<Rightarrow> (a1 + b1, a2 + b2, a3 + b3))"

definition vec_sub :: "vec3 \<Rightarrow> vec3 \<Rightarrow> vec3" where
  "vec_sub a b = (case a of (a1, a2, a3) \<Rightarrow> case b of (b1, b2, b3) \<Rightarrow> (a1 - b1, a2 - b2, a3 - b3))"

definition vec_scale :: "real \<Rightarrow> vec3 \<Rightarrow> vec3" where
  "vec_scale c a = (case a of (a1, a2, a3) \<Rightarrow> (c * a1, c * a2, c * a3))"

definition transpose3 :: "mat3 \<Rightarrow> mat3" where
  "transpose3 M =
     (case M of ((a, b, c), (d, e, f), (g, h, i)) \<Rightarrow> ((a, d, g), (b, e, h), (c, f, i)))"

definition mat_mul :: "mat3 \<Rightarrow> mat3 \<Rightarrow> mat3" where
  "mat_mul A B =
     (case transpose3 B of (c1, c2, c3) \<Rightarrow>
      case A of (r1, r2, r3) \<Rightarrow>
        ((dot3 r1 c1, dot3 r1 c2, dot3 r1 c3),
         (dot3 r2 c1, dot3 r2 c2, dot3 r2 c3),
         (dot3 r3 c1, dot3 r3 c2, dot3 r3 c3)))"

definition eye3 :: mat3 where
  "eye3 = ((1, 0, 0), (0, 1, 0), (0, 0, 1))"

definition det3 :: "mat3 \<Rightarrow> real" where
  "det3 M =
     (case M of ((a, b, c), (d, e, f), (g, h, i)) \<Rightarrow>
        a * (e * i - f * h) - b * (d * i - f * g) + c * (d * h - e * g))"

text \<open>\<^verbatim>\<open>np.linalg.inv\<close>: the inverse in exact arithmetic, LinAlgError for a singular
  matrix.\<close>

definition linalg_inv :: "mat3 \<Rightarrow> error + mat3" where
  "linalg_inv M =
     (case M of ((a, b, c), (d, e, f), (g, h, i)) \<Rightarrow>
        let dt = det3 M in
        if dt = 0 then Inl LinAlgError
        else Inr (((e * i - f * h) / dt, (c * h - b * i) / dt, (b * f - c * e) / dt),
                  ((f * g - d * i) / dt, (a * i - c * g) / dt, (c * d - a * f) / dt),
                  ((d * h - e * g) / dt, (b * g - a * h) / dt, (a * e - b * d) / dt)))"

text \<open>
  \<^verbatim>\<open>world2image(points, K, R, t, scale_factor, dtype)\<close>. The flag says whether
  \<^verbatim>\<open>dtype\<close> is a subclass of \<^verbatim>\<open>np.integer\<close> (the default \<^verbatim>\<open>np.int32\<close>
  is); then the pixel coordinates are rounded before the cast. The cast itself is the
  identity on the values read as reals (an integer beyond 32 bits is not modelled).
  The division is NumPy's: where a depth or the scale factor is zero the result is not
  finite.
\<close>

definition world2image ::
  "vec3 list \<Rightarrow> mat3 \<Rightarrow> mat3 \<Rightarrow> vec3 \<Rightarrow> real \<Rightarrow> bool \<Rightarrow> error + (point list \<times> real list)" where
  "world2image points K R t scale_factor integer_dtype =
     (let camera_space_coords = map (\<lambda>p. mat_vec K (vec_add (mat_vec R p) t)) points;
          depth = map (\<lambda>(x, y, z). z) camera_space_coords in
      if scale_factor = 0 \<or> 0 \<in> set depth then Inl NonFinite
      else
        let pixel_coords =
              map (\<lambda>(x, y, z). (x / z / scale_factor, y / z / scale_factor)) camera_space_coords;
            pixel_coords =
              (if integer_dtype
               then map (\<lambda>(u, v). (of_int (py_round u), of_int (py_round v))) pixel_coords
               else pixel_coords)
        in Inr (pixel_coords, depth))"

text \<open>\<^verbatim>\<open>image2world(points, depth, K, R, t, scale_factor)\<close>.\<close>

definition image2world ::
  "point list \<Rightarrow> real list \<Rightarrow> mat3 \<Rightarrow> mat3 \<Rightarrow> vec3 \<Rightarrow> real \<Rightarrow> error + vec3 list" where
  "image2world points depth K R t scale_factor =
     (if length depth \<noteq> length points then Inl ShapeError
      else
        let points2d = map (\<lambda>(u, v). (u * scale_factor, v * scale_factor, 1)) points in
        case linalg_inv K of
          Inl e \<Rightarrow> Inl e
        | Inr K_inv \<Rightarrow>
            let pixel_i = map (mat_vec K_inv) points2d;
                pixel_world =
                  map (\<lambda>(d, q). mat_vec (transpose3 R) (vec_sub (vec_scale d q) t))
                      (zip depth pixel_i)
            in Inr pixel_world)"

text \<open>
  Names for what the two functions do to one point, used to state their properties:
  the camera-space coordinates \<open>K (R p + t)\<close>, whose third component is the depth of
  \<open>p\<close> under the pose; the pixel of \<open>p\<close>; and the point of a depth and a pixel.
\<close>

definition camera_coords :: "mat3 \<Rightarrow> mat3 \<Rightarrow> vec3 \<Rightarrow> vec3 \<Rightarrow> vec3" where
  "camera_coords K R t p = mat_vec K (vec_add (mat_vec R p) t)"

definition project :: "mat3 \<Rightarrow> mat3 \<Rightarrow> vec3 \<Rightarrow> real \<Rightarrow> vec3 \<Rightarrow> point" where
  "project K R t s p = (case camera_coords K R t p of (x, y, z) \<Rightarrow> (x / z / s, y / z / s))"

definition back_project :: "mat3 \<Rightarrow> mat3 \<Rightarrow> vec3 \<Rightarrow> real \<Rightarrow> real \<times> point \<Rightarrow> vec3" where
  "back_project K_inv R t s dq =
     (case dq of (d, (u, v)) \<Rightarrow>
        mat_vec (transpose3 R) (vec_sub (vec_scale d (mat_vec K_inv (u * s, v * s, 1))) t))"

definition depth_under_pose :: "mat3 \<Rightarrow> mat3 \<Rightarrow> vec3 \<Rightarrow> vec3 \<Rightarrow> real" where
  "depth_under_pose K R t p = (case mat_vec K (vec_add (mat_vec R p) t) of (x, y, z) \<Rightarrow> z)"

section \<open>Frame-pair sampling (\<^verbatim>\<open>PoseOptimiser.sample_frame_pairs\<close>)\<close>

datatype FrameSamplingMode = EXHAUSTIVE | CONSECUTIVE | HIERARCHICAL

type_synonym FramePair = "nat \<times> nat"
type_synonym FramePairs = "FramePair list"

text \<open>
  \<^verbatim>\<open>int(np.floor(np.log2(n)))\<close> for a positive integer \<open>n\<close>, computed exactly
  by repeated halving. (An overestimate by one, which floating point could produce for an
  astronomically large \<open>n\<close>, would add a level whose every pair is skipped.)
\<close>

fun floor_log2 :: "nat \<Rightarrow> nat" where
  "floor_log2 n = (if n < 2 then 0 else Suc (floor_log2 (n div 2)))"

declare floor_log2.simps [simp del]

text \<open>
  \<^verbatim>\<open>max_level = int(np.floor(np.log2(self.dataset.num_frames - 1)))\<close>.
  With no frame the logarithm of \<open>-1\<close> is NaN and \<^verbatim>\<open>int\<close> raises ValueError; with one
  frame the logarithm of \<open>0\<close> is \<open>-inf\<close> and \<^verbatim>\<open>int\<close> raises OverflowError.
\<close>

definition max_level_of :: "nat \<Rightarrow> error + nat" where
  "max_level_of N =
     (if N = 0 then Inl ValueError
      else if N = 1 then Inl OverflowError
      else Inr (floor_log2 (N - 1)))"

text \<open>\<^verbatim>\<open>range(start, stop, step)\<close> for a positive step, as the list it iterates over.\<close>

function py_range :: "nat \<Rightarrow> nat \<Rightarrow> nat \<Rightarrow> nat list" where
  "py_range start stop step =
     (if 0 < step \<and> start < stop then start # py_range (start + step) stop step else [])"
  by pat_completeness auto
termination
  by (relation "measure (\<lambda>(start, stop, step). stop - start)") auto

declare py_range.simps [simp del]

text \<open>The body of \<^verbatim>\<open>for level in range(max_level + 1)\<close>: one pass over the starts.\<close>

definition hierarchical_level :: "nat \<Rightarrow> nat \<Rightarrow> FramePairs \<Rightarrow> FramePairs" where
  "hierarchical_level N level frame_pairs =
     (let step = push_bit level (1::nat) in
      fold (\<lambda>start fp. let end = start + step in
                        if end \<ge> N then fp else fp @ [(start, end)])
           (py_range 0 N step) frame_pairs)"

text \<open>
  \<open>N\<close> is \<^verbatim>\<open>self.dataset.num_frames\<close>. The three members of the enumeration are
  the three branches; the final \<^verbatim>\<open>else: raise RuntimeError\<close> is reached by no member.
\<close>

definition sample_frame_pairs :: "nat \<Rightarrow> FrameSamplingMode \<Rightarrow> error + FramePairs" where
  "sample_frame_pairs N frame_sampling_mode =
     (case frame_sampling_mode of
        EXHAUSTIVE \<Rightarrow>
          Inr (fold (\<lambda>i fp. fold (\<lambda>j fp'. fp' @ [(i, j)]) [i + 1..<N] fp) [0..<N] [])
      | CONSECUTIVE \<Rightarrow>
          Inr (fold (\<lambda>i fp. fp @ [(i, i + 1)]) [0..<N - 1] [])
      | HIERARCHICAL \<Rightarrow>
          (case max_level_of N of
             Inl e \<Rightarrow> Inl e
           | Inr max_level \<Rightarrow> Inr (fold (hierarchical_level N) [0..<max_level + 1] [])))"

text \<open>
  The hierarchical mode as the specification words it: for every level from \<open>0\<close> to
  \<open>floor (log2 (N - 1))\<close>, the pairs \<open>(start, start + 2 ^ level)\<close> for the multiples
  \<open>start\<close> of \<open>2 ^ level\<close> below \<open>N\<close>, without the pairs whose second index reaches \<open>N\<close>.
\<close>

definition hierarchical_spec :: "nat \<Rightarrow> FramePairs" where
  "hierarchical_spec N =
     concat (map (\<lambda>level. map (\<lambda>start. (start, start + 2 ^ level))
                            (filter (\<lambda>start. 2 ^ level dvd start \<and> start + 2 ^ level < N) [0..<N]))
                 [0..<floor_log2 (N - 1) + 1])"

section \<open>Correspondence extraction (\<^verbatim>\<open>FeatureExtractor\<close>)\<close>

subsection \<open>Data\<close>

text \<open>
  What the extractor reads of OpenCV's key points and matches: the coordinates
  \<^verbatim>\<open>pt = (x, y)\<close> of a key point, and the distance and the two key-point indices of a
  match. A depth map is a two-dimensional array, the list of its rows.
\<close>

record KeyPoint =
  pt :: point

record DMatch =
  distance :: real
  queryIdx :: int
  trainIdx :: int

type_synonym depth_map = "real list list"

text \<open>The two named tuples. \<^verbatim>\<open>index\<close> is one frame index in the result for a frame
  pair and a list of frame indices in the aggregated result.\<close>

record 'i FeatureData =
  index :: 'i
  points :: "point list"
  depth :: "real list"

record 'i FeatureSet =
  frame_i :: "'i FeatureData"
  frame_j :: "'i FeatureData"

text \<open>
  Modelled from the spec: \<^verbatim>\<open>VTMDataset\<close> (\<^verbatim>\<open>Video2mesh.io\<close>) is not part of the
  sources. The specification gives its contract: a frame count and, for every frame
  index, an image, a depth map of the same resolution and a mask of dynamic objects.
  The grey-scale conversion of the image and the inversion of the mask, which
  \<^verbatim>\<open>_get_frame_data\<close> applies to what it loads, are part of \<open>rgb_dataset\<close> and
  \<open>mask_dataset\<close> here: both are opaque to the extractor.
\<close>

record ('img, 'mask) VTMDataset =
  num_frames :: nat
  rgb_dataset :: "nat \<Rightarrow> 'img"
  depth_dataset :: "nat \<Rightarrow> depth_map"
  mask_dataset :: "nat \<Rightarrow> 'mask"

text \<open>
  The three calls into OpenCV, as parameters: \<^verbatim>\<open>self.sift.detectAndCompute\<close>,
  \<^verbatim>\<open>self.matcher.knnMatch\<close> (with \<open>k = 2\<close>; every entry of the result is the tuple
  of the nearest candidates of one query descriptor) and \<^verbatim>\<open>cv2.findHomography\<close> (with
  RANSAC; only the inlier mask of the result is used, and OpenCV returns \<^verbatim>\<open>None\<close>
  for it when it finds no homography). Any of them may raise.
\<close>

record ('img, 'mask, 'desc) cv2 =
  detectAndCompute :: "'img \<Rightarrow> 'mask option \<Rightarrow> error + (KeyPoint list \<times> 'desc)"
  knnMatch :: "'desc \<Rightarrow> 'desc \<Rightarrow> error + DMatch list list"
  findHomography :: "point list \<Rightarrow> point list \<Rightarrow> error + nat list option"

text \<open>The fields of the extractor. The three lists are \<^verbatim>\<open>None\<close> until
  \<^verbatim>\<open>extract_feature_points\<close> loads them.\<close>

record ('img, 'mask) FeatureExtractor =
  dataset :: "('img, 'mask) VTMDataset"
  frame_pairs :: "(int \<times> int) list"
  min_features :: int
  max_features :: "int option"
  ignore_dynamic_objects :: bool
  frames :: "'img list option"
  depth_maps :: "depth_map list option"
  masks :: "'mask list option"

text \<open>What the extractor does besides computing: the warnings of the constructor and the
  calls it makes, in order.\<close>

datatype warning = MinFeaturesBelow20 | MaxFeaturesBelowTwiceMin

datatype event =
    DetectAndCompute int
  | KnnMatch int int
  | FindHomography int int
  | SaveMatchesVisualisation int int bool

subsection \<open>The constructor\<close>

text \<open>
  \<^verbatim>\<open>FeatureExtractor.__init__\<close>. Both numbers are integers by typing, so the
  \<^verbatim>\<open>isinstance\<close> tests hold. The two \<^verbatim>\<open>raise ValueError\<close> come first, then
  the two warnings, then the fields are stored as given.
\<close>

definition FeatureExtractor_init ::
  "('img, 'mask) VTMDataset \<Rightarrow> (int \<times> int) list \<Rightarrow> int \<Rightarrow> int option \<Rightarrow> bool
     \<Rightarrow> error + (('img, 'mask) FeatureExtractor \<times> warning list)" where
  "FeatureExtractor_init ds pairs min_feat max_feat ignore_dynamic =
     (if min_feat < 5 then Inl ValueError
      else if (case max_feat of None \<Rightarrow> False | Some m \<Rightarrow> m \<le> min_feat) then Inl ValueError
      else
        let w1 = (if min_feat < 20 then [MinFeaturesBelow20] else []);
            w2 = (if (case max_feat of None \<Rightarrow> False | Some m \<Rightarrow> m < 2 * min_feat)
                  then [MaxFeaturesBelowTwiceMin] else [])
        in Inr (\<lparr>dataset = ds, frame_pairs = pairs, min_features = min_feat,
                  max_features = max_feat, ignore_dynamic_objects = ignore_dynamic,
                  frames = None, depth_maps = None, masks = None\<rparr>,
                w1 @ w2))"

subsection \<open>Loading and detection\<close>

text \<open>\<^verbatim>\<open>_get_frame_data\<close>: one entry per frame index below the frame count; the
  masks only when dynamic objects are to be ignored.\<close>

definition get_frame_data ::
  "('img, 'mask) FeatureExtractor \<Rightarrow> 'img list \<times> depth_map list \<times> 'mask list option" where
  "get_frame_data self =
     (let n = num_frames (dataset self) in
      (map (rgb_dataset (dataset self)) [0..<n],
       map (depth_dataset (dataset self)) [0..<n],
       if ignore_dynamic_objects self then Some (map (mask_dataset (dataset self)) [0..<n])
       else None))"

text \<open>Subscripting a field that is still \<^verbatim>\<open>None\<close> raises TypeError.\<close>

definition subscript :: "'a list option \<Rightarrow> int \<Rightarrow> error + 'a" where
  "subscript field i = (case field of None \<Rightarrow> Inl TypeError | Some xs \<Rightarrow> py_index xs i)"

text \<open>\<^verbatim>\<open>_get_key_points_and_descriptors\<close>.\<close>

definition get_key_points_and_descriptors ::
  "('img, 'mask, 'desc) cv2 \<Rightarrow> ('img, 'mask) FeatureExtractor \<Rightarrow> int
     \<Rightarrow> event list \<times> (error + (KeyPoint list \<times> 'desc))" where
  "get_key_points_and_descriptors cv self idx =
     (case (if ignore_dynamic_objects self
            then (case subscript (masks self) idx of Inl e \<Rightarrow> Inl e | Inr m \<Rightarrow> Inr (Some m))
            else Inr None) of
        Inl e \<Rightarrow> ([], Inl e)
      | Inr the_mask \<Rightarrow>
          (case subscript (frames self) idx of
             Inl e \<Rightarrow> ([], Inl e)
           | Inr frame \<Rightarrow> ([DetectAndCompute idx], detectAndCompute cv frame the_mask)))"

subsection \<open>The ratio test and the depth test\<close>

text \<open>\<^verbatim>\<open>self.depth_maps[i][round(point[1]), round(point[0])]\<close>: row \<open>y\<close>, column
  \<open>x\<close>, both rounded.\<close>

definition depth_at :: "depth_map list option \<Rightarrow> int \<Rightarrow> point \<Rightarrow> error + real" where
  "depth_at maps i point =
     (case subscript maps i of
        Inl e \<Rightarrow> Inl e
      | Inr depth_map \<Rightarrow>
          (case py_index depth_map (py_round (snd point)) of
             Inl e \<Rightarrow> Inl e
           | Inr row \<Rightarrow> py_index row (py_round (fst point))))"

text \<open>
  The body of the loop of \<^verbatim>\<open>_filter_matches\<close> for the \<open>k\<close>-th entry of
  \<^verbatim>\<open>matches\<close>. Unpacking the entry into \<^verbatim>\<open>(m, n)\<close> raises ValueError unless it
  has two elements. The test \<^verbatim>\<open>m.distance > 0.7 * n.distance\<close> compares a double with
  the double-precision product of the literal and a double. The state is the tuple the
  function returns.
\<close>

type_synonym filtered =
  "point list \<times> point list \<times> real list \<times> real list \<times> (nat \<times> nat) list"

definition filter_matches_step ::
  "('img, 'mask) FeatureExtractor \<Rightarrow> int \<Rightarrow> int \<Rightarrow> KeyPoint list \<Rightarrow> KeyPoint list
     \<Rightarrow> nat \<times> DMatch list \<Rightarrow> filtered \<Rightarrow> error + filtered" where
  "filter_matches_step self i j key_points_i key_points_j entry st =
     (case st of (points_i, points_j, depth_i, depth_j, matches_mask) \<Rightarrow>
      case entry of (k, mn) \<Rightarrow>
      (case mn of
         [m, n] \<Rightarrow>
           if distance m > double_mul double_0_7 (distance n) then Inr st
           else
             (case py_index key_points_i (queryIdx m) of
                Inl e \<Rightarrow> Inl e
              | Inr kp_i \<Rightarrow>
             (case depth_at (depth_maps self) i (pt kp_i) of
                Inl e \<Rightarrow> Inl e
              | Inr the_depth_i \<Rightarrow>
             (case py_index key_points_j (trainIdx m) of
                Inl e \<Rightarrow> Inl e
              | Inr kp_j \<Rightarrow>
             (case depth_at (depth_maps self) j (pt kp_j) of
                Inl e \<Rightarrow> Inl e
              | Inr the_depth_j \<Rightarrow>
                  if the_depth_i = 0 \<or> the_depth_j = 0 then Inr st
                  else Inr (points_i @ [pt kp_i], points_j @ [pt kp_j],
                            depth_i @ [the_depth_i], depth_j @ [the_depth_j],
                            matches_mask[k := (1, snd (matches_mask ! k))])))))
       | _ \<Rightarrow> Inl ValueError))"

text \<open>\<^verbatim>\<open>_filter_matches\<close>.\<close>

definition filter_matches ::
  "('img, 'mask) FeatureExtractor \<Rightarrow> int \<Rightarrow> int \<Rightarrow> KeyPoint list \<Rightarrow> KeyPoint list
     \<Rightarrow> DMatch list list \<Rightarrow> error + filtered" where
  "filter_matches self i j key_points_i key_points_j matches =
     fold_err (filter_matches_step self i j key_points_i key_points_j)
       (enumerate 0 matches)
       ([], [], [], [], replicate (length matches) (0, 0))"

subsection \<open>The geometric filter\<close>

text \<open>
  \<^verbatim>\<open>_filter_matches_ransac\<close>. \<^verbatim>\<open>mask.flatten()\<close> on \<^verbatim>\<open>None\<close> raises
  AttributeError. The rows \<open>[1, 0]\<close> of the matches mask are the accepted matches; those
  that RANSAC calls outliers are reset to \<open>[0, 0]\<close>, and the four lists keep their
  inliers. Each of the five selections by a boolean array raises IndexError unless the
  array is as long as what it selects from.
\<close>

definition filter_matches_ransac ::
  "('img, 'mask, 'desc) cv2 \<Rightarrow> point list \<Rightarrow> point list \<Rightarrow> real list \<Rightarrow> real list
     \<Rightarrow> (nat \<times> nat) list \<Rightarrow> error + filtered" where
  "filter_matches_ransac cv points_i points_j depth_i depth_j matches_mask =
     (case findHomography cv points_i points_j of
        Inl e \<Rightarrow> Inl e
      | Inr None \<Rightarrow> Inl AttributeError
      | Inr (Some inlier_mask) \<Rightarrow>
          let is_inlier = map (\<lambda>v. v > 0) inlier_mask;
              is_outlier = map Not is_inlier;
              accepted_match_indices =
                filter (\<lambda>k. matches_mask ! k = (1, 0)) [0..<length matches_mask]
          in
          (case boolean_mask is_outlier accepted_match_indices of
             Inl e \<Rightarrow> Inl e
           | Inr rejected \<Rightarrow>
          (case boolean_mask is_inlier points_i of
             Inl e \<Rightarrow> Inl e
           | Inr points_i' \<Rightarrow>
          (case boolean_mask is_inlier points_j of
             Inl e \<Rightarrow> Inl e
           | Inr points_j' \<Rightarrow>
          (case boolean_mask is_inlier depth_i of
             Inl e \<Rightarrow> Inl e
           | Inr depth_i' \<Rightarrow>
          (case boolean_mask is_inlier depth_j of
             Inl e \<Rightarrow> Inl e
           | Inr depth_j' \<Rightarrow>
               Inr (points_i', points_j', depth_i', depth_j',
                    fold (\<lambda>k mm. mm[k := (0, 0)]) rejected matches_mask)))))))"

subsection \<open>One frame pair\<close>

text \<open>
  \<^verbatim>\<open>_get_image_features\<close>: the events are the calls made, the value is the
  exception raised or what is returned, \<^verbatim>\<open>None\<close> for a rejected pair.
  \<^verbatim>\<open>_save_matches_visualisation\<close> only writes an image and is an event here.
\<close>

definition get_image_features ::
  "('img, 'mask, 'desc) cv2 \<Rightarrow> ('img, 'mask) FeatureExtractor \<Rightarrow> int \<times> int
     \<Rightarrow> event list \<times> (error + int FeatureSet option)" where
  "get_image_features cv self frame_pair =
     (case frame_pair of (i, j) \<Rightarrow>
      case get_key_points_and_descriptors cv self i of
        (ev_i, Inl e) \<Rightarrow> (ev_i, Inl e)
      | (ev_i, Inr (key_points_i, descriptors_i)) \<Rightarrow>
      case get_key_points_and_descriptors cv self j of
        (ev_j, Inl e) \<Rightarrow> (ev_i @ ev_j, Inl e)
      | (ev_j, Inr (key_points_j, descriptors_j)) \<Rightarrow>
      if int (min (length key_points_i) (length key_points_j)) < min_features self
      then (ev_i @ ev_j, Inr None)
      else
      case knnMatch cv descriptors_i descriptors_j of
        Inl e \<Rightarrow> (ev_i @ ev_j @ [KnnMatch i j], Inl e)
      | Inr matches \<Rightarrow>
      case filter_matches self i j key_points_i key_points_j matches of
        Inl e \<Rightarrow> (ev_i @ ev_j @ [KnnMatch i j], Inl e)
      | Inr (points_i, points_j, depth_i, depth_j, matches_mask) \<Rightarrow>
      if int (length points_i) < min_features self
      then (ev_i @ ev_j @ [KnnMatch i j, SaveMatchesVisualisation i j False], Inr None)
      else
      case filter_matches_ransac cv points_i points_j depth_i depth_j matches_mask of
        Inl e \<Rightarrow> (ev_i @ ev_j @ [KnnMatch i j, FindHomography i j], Inl e)
      | Inr (points_i', points_j', depth_i', depth_j', matches_mask') \<Rightarrow>
      if int (length points_i') < min_features self
      then (ev_i @ ev_j @ [KnnMatch i j, FindHomography i j, SaveMatchesVisualisation i j False],
            Inr None)
      else (ev_i @ ev_j @ [KnnMatch i j, FindHomography i j, SaveMatchesVisualisation i j True],
            Inr (Some \<lparr>frame_i = \<lparr>index = i, points = points_i', depth = depth_i'\<rparr>,
                       frame_j = \<lparr>index = j, points = points_j', depth = depth_j'\<rparr>\<rparr>)))"

subsection \<open>Statistics\<close>

text \<open>
  The loop of \<^verbatim>\<open>_print_results_stats\<close> over the frame indices; the state is
  \<^verbatim>\<open>(chunks, chunk)\<close>.
\<close>

definition chunk_step :: "int set \<Rightarrow> nat \<Rightarrow> nat list list \<times> nat list \<Rightarrow> nat list list \<times> nat list" where
  "chunk_step frames_with_matched_features frame_index st =
     (case st of (chunks, chunk) \<Rightarrow>
        if int frame_index \<in> frames_with_matched_features then (chunks, chunk @ [frame_index])
        else if chunk \<noteq> [] then (chunks @ [chunk], [])
        else (chunks, chunk))"

definition frame_chunks :: "int set \<Rightarrow> nat \<Rightarrow> nat list list" where
  "frame_chunks frames_with_matched_features N =
     (case fold (chunk_step frames_with_matched_features) [0..<N] ([], []) of
        (chunks, chunk) \<Rightarrow> if chunk \<noteq> [] then chunks @ [chunk] else chunks)"

text \<open>What \<^verbatim>\<open>_print_results_stats\<close> logs: the good and the sampled frame pairs, the
  coverage and the number of groups of consecutive frames.\<close>

record results_stats =
  good_frame_pairs :: nat
  sampled_frame_pairs :: nat
  coverage :: real
  groups :: nat

text \<open>
  \<^verbatim>\<open>_print_results_stats\<close>. The division is Python's, of two integers: it raises
  ZeroDivisionError for a dataset without frames, before anything is logged.
\<close>

definition print_results_stats ::
  "('img, 'mask) FeatureExtractor \<Rightarrow> int list \<Rightarrow> int list \<Rightarrow> nat \<Rightarrow> error + results_stats" where
  "print_results_stats self index_i index_j num_good_frame_pairs =
     (let frames_with_matched_features = set (index_i @ index_j) in
      if num_frames (dataset self) = 0 then Inl ZeroDivisionError
      else
        Inr \<lparr>good_frame_pairs = num_good_frame_pairs,
             sampled_frame_pairs = length (frame_pairs self),
             coverage = real (card frames_with_matched_features)
                          / real (num_frames (dataset self)),
             groups = length (frame_chunks frames_with_matched_features
                                (num_frames (dataset self)))\<rparr>)"

text \<open>
  The number of maximal runs of consecutive covered indices among \<open>0, \<dots>, N - 1\<close>, as
  the specification words it: a run starts at a covered index that is \<open>0\<close> or whose
  predecessor is not covered.
\<close>

definition maximal_runs :: "int set \<Rightarrow> nat \<Rightarrow> nat" where
  "maximal_runs covered N =
     length (filter (\<lambda>k. int k \<in> covered \<and> (k = 0 \<or> int k - 1 \<notin> covered)) [0..<N])"

subsection \<open>All frame pairs\<close>

text \<open>
  Modelled from the spec: \<^verbatim>\<open>tqdm_imap\<close> (\<^verbatim>\<open>Video2mesh.utils\<close>) is not part of
  the sources. The specification has the aggregator apply the extractor to every sampled
  pair, each independently of the others, and collect the results; here the pairs are
  taken in order and an exception of one of them ends the run.
\<close>

fun tqdm_imap ::
  "('a \<Rightarrow> event list \<times> (error + 'b)) \<Rightarrow> 'a list \<Rightarrow> event list \<times> (error + 'b list)" where
  "tqdm_imap f [] = ([], Inr [])"
| "tqdm_imap f (x # xs) =
     (case f x of
        (ev, Inl e) \<Rightarrow> (ev, Inl e)
      | (ev, Inr y) \<Rightarrow>
          (case tqdm_imap f xs of
             (ev', Inl e) \<Rightarrow> (ev @ ev', Inl e)
           | (ev', Inr ys) \<Rightarrow> (ev @ ev', Inr (y # ys))))"

text \<open>The body of the loop of \<^verbatim>\<open>extract_feature_points\<close>; the state is the six
  lists and the number of good frame pairs.\<close>

type_synonym aggregate =
  "int list \<times> point list \<times> real list \<times> int list \<times> point list \<times> real list \<times> nat"

definition aggregate_step :: "int FeatureSet option \<Rightarrow> aggregate \<Rightarrow> aggregate" where
  "aggregate_step feature_set st =
     (case st of (index_i, points_i, depth_i, index_j, points_j, depth_j, num_good_frame_pairs) \<Rightarrow>
      case feature_set of
        None \<Rightarrow> st
      | Some fs \<Rightarrow>
          let num_points = length (points (frame_i fs)) in
          (index_i @ replicate num_points (index (frame_i fs)),
           points_i @ points (frame_i fs),
           depth_i @ depth (frame_i fs),
           index_j @ replicate num_points (index (frame_j fs)),
           points_j @ points (frame_j fs),
           depth_j @ depth (frame_j fs),
           num_good_frame_pairs + 1))"

text \<open>\<^verbatim>\<open>self.frames, self.depth_maps, self.masks = self._get_frame_data()\<close>.\<close>

definition load_frame_data :: "('img, 'mask) FeatureExtractor \<Rightarrow> ('img, 'mask) FeatureExtractor" where
  "load_frame_data self =
     (case get_frame_data self of (the_frames, the_depth_maps, the_masks) \<Rightarrow>
        self\<lparr>frames := Some the_frames, depth_maps := Some the_depth_maps,
             masks := the_masks\<rparr>)"

text \<open>
  \<^verbatim>\<open>extract_feature_points\<close>: load the frames, process every frame pair, aggregate,
  log the statistics, return the feature set. The statistics are returned with it.
  (\<^verbatim>\<open>_setup_debug_folder\<close> prepares the folder of the visualisations and touches
  nothing else.)
\<close>

definition extract_feature_points ::
  "('img, 'mask, 'desc) cv2 \<Rightarrow> ('img, 'mask) FeatureExtractor
     \<Rightarrow> event list \<times> (error + (int list FeatureSet \<times> results_stats))" where
  "extract_feature_points cv self0 =
     (let self = load_frame_data self0 in
      case tqdm_imap (get_image_features cv self) (frame_pairs self) of
        (ev, Inl e) \<Rightarrow> (ev, Inl e)
      | (ev, Inr results) \<Rightarrow>
      case fold aggregate_step results ([], [], [], [], [], [], 0) of
        (index_i, points_i, depth_i, index_j, points_j, depth_j, num_good_frame_pairs) \<Rightarrow>
      case print_results_stats self index_i index_j num_good_frame_pairs of
        Inl e \<Rightarrow> (ev, Inl e)
      | Inr stats \<Rightarrow>
          (ev, Inr (\<lparr>frame_i = \<lparr>index = index_i, points = points_i, depth = depth_i\<rparr>,
                     frame_j = \<lparr>index = index_j, points = points_j, depth = depth_j\<rparr>\<rparr>,
                    stats)))"

subsection \<open>Notions used to state the properties of the extractor\<close>

text \<open>
  A correspondence: the point in frame \<open>i\<close>, the point in frame \<open>j\<close> and the depth at
  each. \<open>endpoints\<close> is what the loop of \<^verbatim>\<open>_filter_matches\<close> looks up for a match
  \<open>m\<close>: the two key points it names and the depths at their rounded coordinates.
\<close>

type_synonym correspondence = "point \<times> point \<times> real \<times> real"

definition endpoints ::
  "('img, 'mask) FeatureExtractor \<Rightarrow> int \<Rightarrow> int \<Rightarrow> KeyPoint list \<Rightarrow> KeyPoint list
     \<Rightarrow> DMatch \<Rightarrow> error + correspondence" where
  "endpoints self i j key_points_i key_points_j m =
     (case py_index key_points_i (queryIdx m) of
        Inl e \<Rightarrow> Inl e
      | Inr kp_i \<Rightarrow>
     (case depth_at (depth_maps self) i (pt kp_i) of
        Inl e \<Rightarrow> Inl e
      | Inr the_depth_i \<Rightarrow>
     (case py_index key_points_j (trainIdx m) of
        Inl e \<Rightarrow> Inl e
      | Inr kp_j \<Rightarrow>
     (case depth_at (depth_maps self) j (pt kp_j) of
        Inl e \<Rightarrow> Inl e
      | Inr the_depth_j \<Rightarrow> Inr (pt kp_i, pt kp_j, the_depth_i, the_depth_j)))))"

text \<open>What one pass of the loop does with an entry of \<^verbatim>\<open>matches\<close>: raise, skip it, or
  keep a correspondence.\<close>

definition decision ::
  "('img, 'mask) FeatureExtractor \<Rightarrow> int \<Rightarrow> int \<Rightarrow> KeyPoint list \<Rightarrow> KeyPoint list
     \<Rightarrow> DMatch list \<Rightarrow> error + correspondence option" where
  "decision self i j key_points_i key_points_j mn =
     (case mn of
        [m, n] \<Rightarrow>
          if distance m > double_mul double_0_7 (distance n) then Inr None
          else (case endpoints self i j key_points_i key_points_j m of
                  Inl e \<Rightarrow> Inl e
                | Inr (p, q, d, e) \<Rightarrow> if d = 0 \<or> e = 0 then Inr None else Inr (Some (p, q, d, e)))
      | _ \<Rightarrow> Inl ValueError)"

definition kept :: "'a option list \<Rightarrow> 'a list" where
  "kept rs = map the (filter (\<lambda>r. r \<noteq> None) rs)"

text \<open>The correspondences of a frame pair that pass the ratio test and the depth test, in
  the order of the matches (none when detection or matching raises).\<close>

definition pair_correspondences ::
  "('img, 'mask, 'desc) cv2 \<Rightarrow> ('img, 'mask) FeatureExtractor \<Rightarrow> int \<times> int
     \<Rightarrow> correspondence list" where
  "pair_correspondences cv self frame_pair =
     (case frame_pair of (i, j) \<Rightarrow>
      case snd (get_key_points_and_descriptors cv self i) of
        Inl e \<Rightarrow> []
      | Inr (key_points_i, descriptors_i) \<Rightarrow>
      case snd (get_key_points_and_descriptors cv self j) of
        Inl e \<Rightarrow> []
      | Inr (key_points_j, descriptors_j) \<Rightarrow>
      case knnMatch cv descriptors_i descriptors_j of
        Inl e \<Rightarrow> []
      | Inr matches \<Rightarrow>
          concat (map (\<lambda>mn. case decision self i j key_points_i key_points_j mn of
                              Inr (Some c) \<Rightarrow> [c] | _ \<Rightarrow> [])
                      matches))"

text \<open>The four lists of the result for a frame pair have one length.\<close>

definition aligned :: "'i FeatureSet \<Rightarrow> bool" where
  "aligned r \<longleftrightarrow>
     length (points (frame_j r)) = length (points (frame_i r))
     \<and> length (depth (frame_i r)) = length (points (frame_i r))
     \<and> length (depth (frame_j r)) = length (points (frame_i r))"

text \<open>The correspondence at a position of the result for a frame pair, and at a position
  of the aggregated result.\<close>

definition correspondence_at :: "'i FeatureSet \<Rightarrow> nat \<Rightarrow> correspondence" where
  "correspondence_at r l =
     (points (frame_i r) ! l, points (frame_j r) ! l, depth (frame_i r) ! l, depth (frame_j r) ! l)"

text \<open>The entries that a boolean array selects, whatever the two lengths.\<close>

definition select :: "bool list \<Rightarrow> 'a list \<Rightarrow> 'a list" where
  "select bs xs = map snd (filter fst (zip bs xs))"

text \<open>The positions of the aggregated result: for each accepted result in turn, one
  position for each of its points.\<close>

definition positions :: "'i FeatureSet list \<Rightarrow> ('i FeatureSet \<times> nat) list" where
  "positions acc = concat (map (\<lambda>r. map (Pair r) [0..<length (points (frame_i r))]) acc)"



section \<open>Concrete inputs\<close>

text \<open>A dataset of \<open>n\<close> frames whose images and masks carry no information and whose
  depth maps are all the given one, and an extractor over it with the given frame pairs
  and minimum number of features.\<close>

definition example_dataset :: "nat \<Rightarrow> depth_map \<Rightarrow> (unit, unit) VTMDataset" where
  "example_dataset n dm =
     \<lparr>num_frames = n, rgb_dataset = (\<lambda>_. ()), depth_dataset = (\<lambda>_. dm),
      mask_dataset = (\<lambda>_. ())\<rparr>"

definition example_extractor ::
  "nat \<Rightarrow> depth_map \<Rightarrow> (int \<times> int) list \<Rightarrow> int \<Rightarrow> (unit, unit) FeatureExtractor" where
  "example_extractor n dm pairs min_feat =
     \<lparr>dataset = example_dataset n dm, frame_pairs = pairs, min_features = min_feat,
      max_features = None, ignore_dynamic_objects = False,
      frames = None, depth_maps = None, masks = None\<rparr>"

text \<open>
  A depth map of two rows and three columns with a zero and a negative entry, four key
  points, and four candidate matches: the first on the threshold of the ratio test, the
  second beyond it, the third at a zero depth, the fourth at a negative depth.
\<close>

definition example_depth_map :: depth_map where
  "example_depth_map = [[1, 0, -1], [2, 2, 2]]"

definition example_key_points :: "KeyPoint list" where
  "example_key_points = [\<lparr>pt = (0, 0)\<rparr>, \<lparr>pt = (1, 0)\<rparr>, \<lparr>pt = (2, 0)\<rparr>, \<lparr>pt = (1 / 2, 1)\<rparr>]"

definition example_matches :: "DMatch list list" where
  "example_matches =
     [[\<lparr>distance = 7, queryIdx = 0, trainIdx = 3\<rparr>, \<lparr>distance = 10, queryIdx = 0, trainIdx = 1\<rparr>],
      [\<lparr>distance = 8, queryIdx = 3, trainIdx = 3\<rparr>, \<lparr>distance = 10, queryIdx = 3, trainIdx = 0\<rparr>],
      [\<lparr>distance = 1, queryIdx = 1, trainIdx = 0\<rparr>, \<lparr>distance = 10, queryIdx = 1, trainIdx = 3\<rparr>],
      [\<lparr>distance = 1, queryIdx = 2, trainIdx = 0\<rparr>, \<lparr>distance = 10, queryIdx = 2, trainIdx = 3\<rparr>]]"

definition example_loaded :: "(unit, unit) FeatureExtractor" where
  "example_loaded = load_frame_data (example_extractor 2 example_depth_map [(0, 1)] 5)"

text \<open>
  A complete run: two frames with the same depth map, whose first row is negative;
  detection finds the same five key points in each frame, matching pairs every key
  point with itself at a third of the distance of the runner-up, and RANSAC calls every
  pair an inlier.
\<close>

definition example_negative_map :: depth_map where
  "example_negative_map = [[- 1, - 1, - 1], [2, 2, 2]]"

definition example_five_key_points :: "KeyPoint list" where
  "example_five_key_points =
     [\<lparr>pt = (0, 0)\<rparr>, \<lparr>pt = (1, 0)\<rparr>, \<lparr>pt = (2, 0)\<rparr>, \<lparr>pt = (0, 1)\<rparr>, \<lparr>pt = (1, 1)\<rparr>]"

definition example_five_matches :: "DMatch list list" where
  "example_five_matches =
     map (\<lambda>k. [\<lparr>distance = 1, queryIdx = k, trainIdx = k\<rparr>,
                \<lparr>distance = 3, queryIdx = k, trainIdx = 0\<rparr>]) [0, 1, 2, 3, 4]"

definition example_cv :: "(unit, unit, unit) cv2" where
  "example_cv =
     \<lparr>detectAndCompute = (\<lambda>image the_mask. Inr (example_five_key_points, ())),
      knnMatch = (\<lambda>descriptors_i descriptors_j. Inr example_five_matches),
      findHomography = (\<lambda>points_i points_j. Inr (Some (replicate (length points_i) 1)))\<rparr>"

text \<open>What that run logs and returns.\<close>

definition example_events :: "event list" where
  "example_events =
     [DetectAndCompute 0, DetectAndCompute 1, KnnMatch 0 1, FindHomography 0 1,
      SaveMatchesVisualisation 0 1 True]"

definition example_feature_set :: "int list FeatureSet" where
  "example_feature_set =
     \<lparr>frame_i = \<lparr>index = [0, 0, 0, 0, 0],
                 points = [(0, 0), (1, 0), (2, 0), (0, 1), (1, 1)],
                 depth = [- 1, - 1, - 1, 2, 2]\<rparr>,
      frame_j = \<lparr>index = [1, 1, 1, 1, 1],
                 points = [(0, 0), (1, 0), (2, 0), (0, 1), (1, 1)],
                 depth = [- 1, - 1, - 1, 2, 2]\<rparr>\<rparr>"

definition example_stats :: results_stats where
  "example_stats =
     \<lparr>good_frame_pairs = 1, sampled_frame_pairs = 1, coverage = 1, groups = 1\<rparr>"





text \<open>One candidate match on the boundary of the ratio test: in exact arithmetic
  \<open>63 = 0.7 \<times> 90\<close>.\<close>

definition boundary_matches :: "DMatch list list" where
  "boundary_matches =
     [[\<lparr>distance = 63, queryIdx = 0, trainIdx = 3\<rparr>,
       \<lparr>distance = 90, queryIdx = 0, trainIdx = 1\<rparr>]]"

section \<open>Properties of the rounding\<close>

lemma py_round_nearest:
  "\<bar>of_int (py_round y) - y\<bar> \<le> 1 / 2
   \<and> (\<bar>of_int (py_round y) - y\<bar> = 1 / 2 \<longrightarrow> even (py_round y))"
proof -
  define f where "f = \<lfloor>y\<rfloor>"
  define r where "r = y - of_int f"
  have r: "0 \<le> r" "r < 1" unfolding r_def f_def by linarith+
  have y: "y = of_int f + r" by (simp add: r_def)
  consider (low) "r < 1 / 2" | (high) "1 / 2 < r" | (tie) "r = 1 / 2" by linarith
  then show ?thesis
  proof cases
    case low
    then have "py_round y = f" by (simp add: py_round_def Let_def f_def [symmetric] r_def)
    with low r show ?thesis by (simp add: y)
  next
    case high
    then have "py_round y = f + 1" by (simp add: py_round_def Let_def f_def [symmetric] r_def)
    with high r show ?thesis by (simp add: y)
  next
    case tie
    then have "py_round y = (if even f then f else f + 1)"
      by (simp add: py_round_def Let_def f_def [symmetric] r_def)
    with tie show ?thesis by (simp add: y)
  qed
qed

lemma binade_settled: "1 \<le> y \<Longrightarrow> y < 2 \<Longrightarrow> binade fuel y e = e"
  by (cases fuel) simp_all

lemma binade_up:
  "1 \<le> x \<Longrightarrow> x < 2 ^ Suc fuel \<Longrightarrow>
     2 powi (binade fuel x e - e) \<le> x \<and> x < 2 powi (binade fuel x e - e + 1)"
proof (induction fuel arbitrary: x e)
  case 0
  then show ?case by simp
next
  case (Suc fuel)
  show ?case
  proof (cases "2 \<le> x")
    case True
    then have "1 \<le> x / 2" "x / 2 < 2 ^ Suc fuel" using Suc.prems by simp_all
    from Suc.IH [OF this, of "e + 1"]
    have "2 powi (binade fuel (x / 2) (e + 1) - (e + 1)) \<le> x / 2"
      and "x / 2 < 2 powi (binade fuel (x / 2) (e + 1) - (e + 1) + 1)"
      by simp_all
    then have "2 powi (binade fuel (x / 2) (e + 1) - e - 1) * 2 \<le> x"
      and "x < 2 powi (binade fuel (x / 2) (e + 1) - e) * 2"
      by (simp_all add: algebra_simps)
    then show ?thesis using True
      by (simp add: power_int_add power_int_diff)
  next
    case False
    then show ?thesis using Suc.prems by simp
  qed
qed

lemma binade_down:
  "0 < x \<Longrightarrow> x < 1 \<Longrightarrow> 1 / 2 ^ fuel \<le> x \<Longrightarrow>
     2 powi (binade fuel x e - e) \<le> x \<and> x < 2 powi (binade fuel x e - e + 1)"
proof (induction fuel arbitrary: x e)
  case 0
  then show ?case by simp
next
  case (Suc fuel)
  have step: "binade (Suc fuel) x e = binade fuel (x * 2) (e - 1)"
    using Suc.prems by simp
  show ?case
  proof (cases "x * 2 < 1")
    case True
    have "0 < x * 2" "1 / 2 ^ fuel \<le> x * 2" using Suc.prems by (simp_all add: field_simps)
    from Suc.IH [OF this(1) True this(2), of "e - 1"]
    have "2 powi (binade fuel (x * 2) (e - 1) - (e - 1)) \<le> x * 2"
      and "x * 2 < 2 powi (binade fuel (x * 2) (e - 1) - (e - 1) + 1)"
      by simp_all
    then have "2 powi (binade fuel (x * 2) (e - 1) - e + 1) \<le> x * 2"
      and "x * 2 < 2 powi (binade fuel (x * 2) (e - 1) - e + 1 + 1)"
      by (simp_all add: algebra_simps)
    then show ?thesis unfolding step
      by (simp add: power_int_add)
  next
    case False
    then have "binade fuel (x * 2) (e - 1) = e - 1"
      using Suc.prems by (intro binade_settled) simp_all
    then have b: "binade fuel (x * 2) (e - 1) - e = - 1"
      by simp
    have "(2::real) powi (- 1) = 1 / 2"
      by (simp add: power_int_minus field_simps)
    then show ?thesis unfolding step b using False Suc.prems
      by simp
  qed
qed

lemma binade_correct:
  assumes "0 < x" "1 / 2 ^ fuel \<le> x" "x < 2 ^ Suc fuel"
  shows "2 powi (binade fuel x 0) \<le> x \<and> x < 2 powi (binade fuel x 0 + 1)"
proof (cases "1 \<le> x")
  case True
  from binade_up [OF True assms(3), of 0] show ?thesis by simp
next
  case False
  then have "x < 1" by simp
  from binade_down [OF assms(1) this assms(2), of 0] show ?thesis by simp
qed

text \<open>
  \<open>round_double\<close> is rounding to the nearest double, ties to even: in the normal range
  the result is an integer multiple \<open>z\<close> of the spacing \<open>2 ^ (e - 52)\<close> of the binade of
  \<open>x\<close>, the integer \<open>z\<close> is within one half of \<open>x\<close> divided by the spacing, and it is
  even when it is exactly one half away.
\<close>

lemma round_double_nearest_even:
  assumes "2 powi (- 1022) \<le> \<bar>x\<bar>" and "\<bar>x\<bar> < 2 powi 1024"
  shows "\<exists>e z. 2 powi e \<le> \<bar>x\<bar> \<and> \<bar>x\<bar> < 2 powi (e + 1)
            \<and> round_double x = of_int z * 2 powi (e - 52)
            \<and> \<bar>of_int z - x / 2 powi (e - 52)\<bar> \<le> 1 / 2
            \<and> (\<bar>of_int z - x / 2 powi (e - 52)\<bar> = 1 / 2 \<longrightarrow> even z)"
proof -
  let ?e = "binade 2200 \<bar>x\<bar> 0"
  have pos: "0 < \<bar>x\<bar>"
    using assms(1) by (smt (verit) zero_less_power_int)
  have lo: "1 / 2 ^ 2200 \<le> \<bar>x\<bar>"
  proof -
    have "(1::real) / 2 ^ 2200 \<le> 2 powi (- 1022)"
      by (simp add: power_int_minus field_simps)
    with assms(1) show ?thesis by linarith
  qed
  have hi: "\<bar>x\<bar> < 2 ^ Suc 2200"
  proof -
    have "(2::real) powi 1024 \<le> 2 ^ Suc 2200"
      by simp
    with assms(2) show ?thesis by linarith
  qed
  from binade_correct [OF pos lo hi]
  have e: "2 powi ?e \<le> \<bar>x\<bar>" "\<bar>x\<bar> < 2 powi (?e + 1)" by simp_all
  have "(2::real) powi (- 1022) < 2 powi (?e + 1)"
    using assms(1) e(2) by linarith
  then have "- 1022 < ?e + 1"
    using power_int_increasing [of "?e + 1" "- 1022" "2::real"] by fastforce
  then have m: "max ?e (- 1022) = ?e" by simp
  have x0: "x \<noteq> 0" using pos by simp
  have r: "round_double x = of_int (py_round (x / 2 powi (?e - 52))) * 2 powi (?e - 52)"
    using x0 by (simp add: round_double_def Let_def m)
  from py_round_nearest [of "x / 2 powi (?e - 52)"] e r show ?thesis by blast
qed

section \<open>Properties of the frame-pair sampler\<close>

subsection \<open>Loops that append are maps and concatenations\<close>

lemma fold_snoc_map: "fold (\<lambda>x fp. fp @ [f x]) xs acc = acc @ map f xs"
  by (induction xs arbitrary: acc) auto

lemma fold_snoc_map_fun: "fold (\<lambda>x fp. fp @ [f x]) xs = (\<lambda>acc. acc @ map f xs)"
  by (rule ext) (rule fold_snoc_map)

lemma fold_snoc_unless: "fold (\<lambda>x fp. if P x then fp else fp @ [f x]) xs acc = acc @ map f (filter (\<lambda>x. \<not> P x) xs)"
  by (induction xs arbitrary: acc) auto

lemma fold_append_concat: "fold (\<lambda>x fp. fp @ g x) xs acc = acc @ concat (map g xs)"
  by (induction xs arbitrary: acc) auto


lemma no_multiple_between: "s dvd a \<Longrightarrow> a < x \<Longrightarrow> x < a + s \<Longrightarrow> \<not> s dvd (x::nat)"
  by (metis dvd_add_right_iff less_imp_add_positive nat_add_left_cancel_less
    nat_dvd_not_less)

lemma filter_dvd_gap: "s dvd a \<Longrightarrow> 0 < s \<Longrightarrow> filter (\<lambda>x. s dvd x) [Suc a..<N] = filter (\<lambda>x. s dvd x) [a + s..<N]"
proof (cases "a + s \<le> N")
  case True
  assume a: "s dvd a" "0 < s"
  have "[Suc a..<N] = [Suc a..<a + s] @ [a + s..<N]"
    using True a by (metis le_iff_add less_add_same_cancel1 less_eq_Suc_le
    upt_add_eq_append)
  moreover have "filter (\<lambda>x. s dvd x) [Suc a..<a + s] = []"
    using a no_multiple_between[of s a] by (auto simp: filter_empty_conv)
  ultimately show ?thesis by simp
next
  case False
  assume a: "s dvd a" "0 < s"
  have "filter (\<lambda>x. s dvd x) [Suc a..<N] = []"
    using a False no_multiple_between[of s a] by (auto simp: filter_empty_conv)
  then show ?thesis using False by simp
qed

lemma py_range_filter: "0 < s \<Longrightarrow> s dvd a \<Longrightarrow> py_range a N s = filter (\<lambda>x. s dvd x) [a..<N]"
proof (induction a N s rule: py_range.induct)
  case (1 start stop step)
  show ?case
  proof (cases "start < stop")
    case False
    then show ?thesis by (subst py_range.simps) simp
  next
    case True
    have "py_range (start + step) stop step = filter (\<lambda>x. step dvd x) [start + step..<stop]"
      using 1 True by simp
    then show ?thesis
      using 1(2,3) True filter_dvd_gap[of step start stop]
      by (subst py_range.simps) (simp add: upt_conv_Cons)
  qed
qed


lemma push_bit_one_nat: "push_bit level (1::nat) = 2 ^ level"
  by (simp add: push_bit_eq_mult)

lemma hierarchical_level_eq:
  "hierarchical_level N level acc =
     acc @ map (\<lambda>start. (start, start + 2 ^ level))
               (filter (\<lambda>start. 2 ^ level dvd start \<and> start + 2 ^ level < N) [0..<N])"
proof -
  have "py_range 0 N (2 ^ level) = filter (\<lambda>x. 2 ^ level dvd x) [0..<N]"
    by (rule py_range_filter) simp_all
  then show ?thesis
    by (simp add: hierarchical_level_def push_bit_one_nat Let_def fold_snoc_unless
        not_le conj_commute)
qed


lemma exhaustive_eq:
  "sample_frame_pairs N EXHAUSTIVE = Inr (concat (map (\<lambda>i. map (Pair i) [i + 1..<N]) [0..<N]))"
  by (simp add: sample_frame_pairs_def fold_snoc_map_fun fold_append_concat)

lemma consecutive_eq:
  "sample_frame_pairs N CONSECUTIVE = Inr (map (\<lambda>i. (i, i + 1)) [0..<N - 1])"
  by (simp add: sample_frame_pairs_def fold_snoc_map)

lemma fold_hierarchical_level:
  "fold (hierarchical_level N) ls acc =
     acc @ concat (map (\<lambda>level. map (\<lambda>start. (start, start + 2 ^ level))
               (filter (\<lambda>start. 2 ^ level dvd start \<and> start + 2 ^ level < N) [0..<N])) ls)"
  by (induction ls arbitrary: acc) (simp_all add: hierarchical_level_eq)

lemma hierarchical_eq:
  "2 \<le> N \<Longrightarrow> sample_frame_pairs N HIERARCHICAL = Inr (hierarchical_spec N)"
  by (simp add: sample_frame_pairs_def max_level_of_def fold_hierarchical_level
      hierarchical_spec_def del: upt_Suc)

lemma distinct_concat_map:
  "distinct ls \<Longrightarrow> (\<And>l. l \<in> set ls \<Longrightarrow> distinct (g l)) \<Longrightarrow>
   (\<And>l l'. l \<in> set ls \<Longrightarrow> l' \<in> set ls \<Longrightarrow> l \<noteq> l' \<Longrightarrow> set (g l) \<inter> set (g l') = {}) \<Longrightarrow>
   distinct (concat (map g ls))"
proof (induction ls)
  case Nil
  then show ?case by simp
next
  case (Cons a ls)
  have "distinct (concat (map g ls))"
    using Cons by simp
  moreover have "distinct (g a)" using Cons.prems(2) by simp
  moreover have "set (g a) \<inter> set (concat (map g ls)) = {}"
    using Cons.prems(1,3) by fastforce
  ultimately show ?case by simp
qed

lemma exhaustive_distinct: "distinct (concat (map (\<lambda>i. map (Pair i) [i + 1..<N]) [0..<N]))"
  by (rule distinct_concat_map) (auto simp: distinct_map inj_on_def)

lemma exhaustive_set:
  "set (concat (map (\<lambda>i. map (Pair i) [i + 1..<N]) [0..<N])) = {(i, j). i < j \<and> j < N}"
proof -
  have "p \<in> set (concat (map (\<lambda>i. map (Pair i) [i + 1..<N]) [0..<N])) \<longleftrightarrow> fst p < snd p \<and> snd p < N" for p
    by (cases p) (auto simp: image_iff)
  then show ?thesis by auto
qed

lemma gauss_rev: "(\<Sum>i<n. n - Suc i) = n * (n - 1) div 2"
proof -
  have "(\<Sum>i<n. n - Suc i) = (\<Sum>i<n. i)"
    by (rule sum.nat_diff_reindex)
  also have "\<dots> = n * (n - 1) div 2"
  proof -
    have "2 * (\<Sum>i<n. i) = n * (n - 1)"
    proof (induction n)
      case 0
      then show ?case by simp
    next
      case (Suc n)
      then show ?case by (cases n) (simp_all add: algebra_simps)
    qed
    then show ?thesis by (metis nonzero_mult_div_cancel_left zero_neq_numeral)
  qed
  finally show ?thesis .
qed

lemma exhaustive_length:
  "length (concat (map (\<lambda>i. map (Pair i) [i + 1..<N]) [0..<N])) = N * (N - 1) div 2"
proof -
  have "length (concat (map (\<lambda>i. map (Pair i) [i + 1..<N]) [0..<N]))
        = sum_list (map (\<lambda>i. N - Suc i) [0..<N])"
    by (simp add: length_concat comp_def)
  also have "\<dots> = (\<Sum>i<N. N - Suc i)"
    by (simp add: interv_sum_list_conv_sum_set_nat atLeast0LessThan)
  finally show ?thesis by (simp add: gauss_rev)
qed

lemma hierarchical_distinct: "distinct (hierarchical_spec N)"
  unfolding hierarchical_spec_def
proof (rule distinct_concat_map)
  show "distinct [0..<floor_log2 (N - 1) + 1]" by simp
next
  fix l
  show "distinct (map (\<lambda>start. (start, start + 2 ^ l))
          (filter (\<lambda>start. 2 ^ l dvd start \<and> start + 2 ^ l < N) [0..<N]))"
    by (auto simp: distinct_map inj_on_def)
next
  fix l l' :: nat
  assume "l \<noteq> l'"
  then have "(2::nat) ^ l \<noteq> 2 ^ l'" by simp
  then show "set (map (\<lambda>start. (start, start + 2 ^ l))
          (filter (\<lambda>start. 2 ^ l dvd start \<and> start + 2 ^ l < N) [0..<N])) \<inter>
        set (map (\<lambda>start. (start, start + 2 ^ l'))
          (filter (\<lambda>start. 2 ^ l' dvd start \<and> start + 2 ^ l' < N) [0..<N])) = {}"
    by auto
qed

lemma hierarchical_set:
  "set (hierarchical_spec N) =
     {(start, start + 2 ^ level) | start level.
        level \<le> floor_log2 (N - 1) \<and> 2 ^ level dvd start \<and> start + 2 ^ level < N}"
proof -
  have "p \<in> set (hierarchical_spec N) \<longleftrightarrow>
        (\<exists>level. level \<le> floor_log2 (N - 1) \<and> 2 ^ level dvd fst p \<and> fst p + 2 ^ level < N
           \<and> snd p = fst p + 2 ^ level)" for p
    by (cases p) (auto simp: hierarchical_spec_def image_iff less_Suc_eq_le simp del: upt_Suc)
  then show ?thesis by auto
qed

lemma floor_log2_bounds: "0 < n \<Longrightarrow> 2 ^ floor_log2 n \<le> n \<and> n < 2 ^ (floor_log2 n + 1)"
proof (induction n rule: floor_log2.induct)
  case (1 n)
  show ?case
  proof (cases "n < 2")
    case True
    then show ?thesis using 1(2) by (subst (1 2) floor_log2.simps) simp
  next
    case False
    then have "2 ^ floor_log2 (n div 2) \<le> n div 2 \<and> n div 2 < 2 ^ (floor_log2 (n div 2) + 1)"
      using 1 by simp
    then show ?thesis using False
      by (subst (1 2) floor_log2.simps) auto
  qed
qed

subsection \<open>What the sampler returns\<close>

text \<open>
  C2. For every frame count \<open>N \<ge> 2\<close> the hierarchical mode returns exactly the list the
  specification describes: for each level from \<open>0\<close> to \<open>floor (log2 (N - 1))\<close> (the
  largest level whose step \<open>2 ^ level\<close> is at most \<open>N - 1\<close>), the pairs
  \<open>(start, start + 2 ^ level)\<close> with \<open>start\<close> running over the multiples of the step
  below \<open>N\<close>, and no pair whose second index is \<open>N\<close> or more. The consecutive pair
  \<open>(0, 1)\<close> is always among them.
\<close>

theorem hierarchical_pairs_exact:
  assumes "2 \<le> N"
  shows "sample_frame_pairs N HIERARCHICAL = Inr (hierarchical_spec N)
       \<and> set (hierarchical_spec N) =
           {(start, start + 2 ^ level) | start level.
              level \<le> floor_log2 (N - 1) \<and> 2 ^ level dvd start \<and> start + 2 ^ level < N}
       \<and> 2 ^ floor_log2 (N - 1) \<le> N - 1 \<and> N - 1 < 2 ^ (floor_log2 (N - 1) + 1)
       \<and> (0, 1) \<in> set (hierarchical_spec N)
       \<and> (\<forall>p \<in> set (hierarchical_spec N). snd p < N)"
proof -
  have bounds: "2 ^ floor_log2 (N - 1) \<le> N - 1 \<and> N - 1 < 2 ^ (floor_log2 (N - 1) + 1)"
    using assms by (intro floor_log2_bounds) simp
  have zero_one: "(0, 1) \<in> set (hierarchical_spec N)"
  proof -
    have "\<exists>start level. (0, 1) = (start, start + 2 ^ level)
             \<and> level \<le> floor_log2 (N - 1) \<and> 2 ^ level dvd start \<and> start + 2 ^ level < N"
      using assms by (intro exI [of _ 0]) simp
    then show ?thesis unfolding hierarchical_set by blast
  qed
  have below: "\<forall>p \<in> set (hierarchical_spec N). snd p < N"
    by (auto simp: hierarchical_set)
  show ?thesis
    using hierarchical_eq [OF assms] hierarchical_set [of N] bounds zero_one below
    by blast
qed

lemma hierarchical_spec_9:
  "hierarchical_spec 9 =
     [(0, 1), (1, 2), (2, 3), (3, 4), (4, 5), (5, 6), (6, 7), (7, 8),
      (0, 2), (2, 4), (4, 6), (6, 8), (0, 4), (4, 8), (0, 8)]"
  by code_simp

theorem hierarchical_pairs_exact_witness:
  "(2::nat) \<le> 9
   \<and> sample_frame_pairs 9 HIERARCHICAL =
       Inr [(0, 1), (1, 2), (2, 3), (3, 4), (4, 5), (5, 6), (6, 7), (7, 8),
            (0, 2), (2, 4), (4, 6), (6, 8), (0, 4), (4, 8), (0, 8)]
   \<and> (0, 1) \<in> set (hierarchical_spec 9)
   \<and> list_all (\<lambda>p. snd p < 9) (hierarchical_spec 9)"
proof -
  have h: "(2::nat) \<le> 9" by simp
  from hierarchical_pairs_exact [OF h]
  have a: "sample_frame_pairs 9 HIERARCHICAL = Inr (hierarchical_spec 9)"
    and b: "(0, 1) \<in> set (hierarchical_spec 9)"
    and c: "list_all (\<lambda>p. snd p < 9) (hierarchical_spec 9)"
    unfolding list_all_iff by blast+
  from a have "sample_frame_pairs 9 HIERARCHICAL =
       Inr [(0, 1), (1, 2), (2, 3), (3, 4), (4, 5), (5, 6), (6, 7), (7, 8),
            (0, 2), (2, 4), (4, 6), (6, 8), (0, 4), (4, 8), (0, 8)]"
    by (simp only: hierarchical_spec_9)
  with h b c show ?thesis by blast
qed

text \<open>
  C5. For every frame count \<open>N \<ge> 2\<close> and each of the three sampling modes, the sampler
  returns a list in which every pair \<open>(i, j)\<close> has \<open>i < j\<close> and no pair occurs twice.
\<close>

theorem sampled_pairs_ordered_distinct:
  assumes "2 \<le> N"
  shows "\<exists>ps. sample_frame_pairs N frame_sampling_mode = Inr ps
            \<and> (\<forall>p \<in> set ps. fst p < snd p) \<and> distinct ps"
proof (cases frame_sampling_mode)
  case EXHAUSTIVE
  have "\<forall>p \<in> set (concat (map (\<lambda>i. map (Pair i) [i + 1..<N]) [0..<N])). fst p < snd p"
    unfolding exhaustive_set by auto
  then show ?thesis
    using EXHAUSTIVE exhaustive_eq [of N] exhaustive_distinct [of N] by simp
next
  case CONSECUTIVE
  have "distinct (map (\<lambda>i. (i, i + 1)) [0..<N - 1])"
    by (simp add: distinct_map inj_on_def)
  moreover have "\<forall>p \<in> set (map (\<lambda>i. (i, i + 1)) [0..<N - 1]). fst p < snd p"
    by simp
  ultimately show ?thesis
    using CONSECUTIVE consecutive_eq [of N] by simp
next
  case HIERARCHICAL
  have "\<forall>p \<in> set (hierarchical_spec N). fst p < snd p"
    by (auto simp: hierarchical_set)
  then show ?thesis
    using HIERARCHICAL hierarchical_eq [OF assms] hierarchical_distinct [of N] by simp
qed

theorem sampled_pairs_ordered_distinct_witness:
  "(2::nat) \<le> 5
   \<and> (\<exists>ps. sample_frame_pairs 5 CONSECUTIVE = Inr ps
          \<and> (\<forall>p \<in> set ps. fst p < snd p) \<and> distinct ps)
   \<and> sample_frame_pairs 5 CONSECUTIVE = Inr [(0, 1), (1, 2), (2, 3), (3, 4)]"
proof -
  have h: "(2::nat) \<le> 5" by simp
  have "sample_frame_pairs 5 CONSECUTIVE = Inr [(0, 1), (1, 2), (2, 3), (3, 4)]"
    by code_simp
  then show ?thesis
    using h sampled_pairs_ordered_distinct [OF h, of CONSECUTIVE] by blast
qed

text \<open>
  C6. The exhaustive mode returns \<open>N (N - 1) / 2\<close> pairs, without repetition, and the
  pairs are exactly the \<open>(i, j)\<close> with \<open>i < j < N\<close>: every unordered pair of frames, once.
  (This holds for every \<open>N\<close>, so in particular for \<open>N \<ge> 2\<close>.)
\<close>

theorem exhaustive_all_pairs:
  "\<exists>ps. sample_frame_pairs N EXHAUSTIVE = Inr ps
       \<and> length ps = N * (N - 1) div 2
       \<and> distinct ps
       \<and> set ps = {(i, j). i < j \<and> j < N}"
  using exhaustive_eq [of N] exhaustive_length [of N] exhaustive_distinct [of N]
    exhaustive_set [of N]
  by simp

theorem exhaustive_all_pairs_witness:
  "sample_frame_pairs 4 EXHAUSTIVE = Inr [(0, 1), (0, 2), (0, 3), (1, 2), (1, 3), (2, 3)]
   \<and> (\<exists>ps. sample_frame_pairs 4 EXHAUSTIVE = Inr ps
          \<and> length ps = 6 \<and> distinct ps \<and> set ps = {(i, j). i < j \<and> j < 4})"
proof -
  have "sample_frame_pairs 4 EXHAUSTIVE = Inr [(0, 1), (0, 2), (0, 3), (1, 2), (1, 3), (2, 3)]"
    by code_simp
  then show ?thesis
    using exhaustive_all_pairs [of 4] by simp
qed

section \<open>Properties of the camera geometry\<close>

lemma linalg_inv_cancel:
  assumes "linalg_inv K = Inr K_inv"
  shows "mat_vec K_inv (mat_vec K v) = v"
proof -
  obtain a b c d e f g h i where K: "K = ((a, b, c), (d, e, f), (g, h, i))"
    by (metis prod_cases3)
  obtain x y z where v: "v = (x, y, z)" by (metis prod_cases3)
  define dt where "dt = det3 K"
  have dt: "dt \<noteq> 0"
    using assms unfolding dt_def K linalg_inv_def by (auto simp: Let_def split: if_splits)
  have Kinv: "K_inv = (((e * i - f * h) / dt, (c * h - b * i) / dt, (b * f - c * e) / dt),
                  ((f * g - d * i) / dt, (a * i - c * g) / dt, (c * d - a * f) / dt),
                  ((d * h - e * g) / dt, (b * g - a * h) / dt, (a * e - b * d) / dt))"
    using assms dt unfolding dt_def K linalg_inv_def by (auto simp: Let_def split: if_splits)
  have dtv: "dt = a * (e * i - f * h) - b * (d * i - f * g) + c * (d * h - e * g)"
    by (simp add: dt_def K det3_def)
  have 1: "((e * i - f * h) * (a * x + b * y + c * z) + (c * h - b * i) * (d * x + e * y + f * z)
            + (b * f - c * e) * (g * x + h * y + i * z)) = dt * x"
    unfolding dtv by (simp add: algebra_simps)
  have 2: "((f * g - d * i) * (a * x + b * y + c * z) + (a * i - c * g) * (d * x + e * y + f * z)
            + (c * d - a * f) * (g * x + h * y + i * z)) = dt * y"
    unfolding dtv by (simp add: algebra_simps)
  have 3: "((d * h - e * g) * (a * x + b * y + c * z) + (b * g - a * h) * (d * x + e * y + f * z)
            + (a * e - b * d) * (g * x + h * y + i * z)) = dt * z"
    unfolding dtv by (simp add: algebra_simps)
  have "mat_vec K_inv (mat_vec K v) =
     (((e * i - f * h) * (a * x + b * y + c * z) + (c * h - b * i) * (d * x + e * y + f * z)
            + (b * f - c * e) * (g * x + h * y + i * z)) / dt,
      ((f * g - d * i) * (a * x + b * y + c * z) + (a * i - c * g) * (d * x + e * y + f * z)
            + (c * d - a * f) * (g * x + h * y + i * z)) / dt,
      ((d * h - e * g) * (a * x + b * y + c * z) + (b * g - a * h) * (d * x + e * y + f * z)
            + (a * e - b * d) * (g * x + h * y + i * z)) / dt)"
    unfolding Kinv K v mat_vec_def dot3_def by (simp add: add_divide_distrib)
  also have "\<dots> = (x, y, z)"
    unfolding 1 2 3 using dt by simp
  finally show ?thesis by (simp add: v)
qed

lemma orthogonal_cancel:
  assumes "mat_mul (transpose3 R) R = eye3"
  shows "mat_vec (transpose3 R) (mat_vec R p) = p"
proof -
  obtain a b c d e f g h i where R: "R = ((a, b, c), (d, e, f), (g, h, i))"
    by (metis prod_cases3)
  obtain x y z where p: "p = (x, y, z)" by (metis prod_cases3)
  from assms have o:
    "a * a + d * d + g * g = 1" "a * b + d * e + g * h = 0" "a * c + d * f + g * i = 0"
    "b * a + e * d + h * g = 0" "b * b + e * e + h * h = 1" "b * c + e * f + h * i = 0"
    "c * a + f * d + i * g = 0" "c * b + f * e + i * h = 0" "c * c + f * f + i * i = 1"
    unfolding R mat_mul_def transpose3_def eye3_def dot3_def by simp_all
  have "a * (a * x + b * y + c * z) + d * (d * x + e * y + f * z) + g * (g * x + h * y + i * z)
        = (a * a + d * d + g * g) * x + (a * b + d * e + g * h) * y + (a * c + d * f + g * i) * z"
    by (simp add: algebra_simps)
  then have 1: "a * (a * x + b * y + c * z) + d * (d * x + e * y + f * z) + g * (g * x + h * y + i * z) = x"
    unfolding o by simp
  have "b * (a * x + b * y + c * z) + e * (d * x + e * y + f * z) + h * (g * x + h * y + i * z)
        = (b * a + e * d + h * g) * x + (b * b + e * e + h * h) * y + (b * c + e * f + h * i) * z"
    by (simp add: algebra_simps)
  then have 2: "b * (a * x + b * y + c * z) + e * (d * x + e * y + f * z) + h * (g * x + h * y + i * z) = y"
    unfolding o by simp
  have "c * (a * x + b * y + c * z) + f * (d * x + e * y + f * z) + i * (g * x + h * y + i * z)
        = (c * a + f * d + i * g) * x + (c * b + f * e + i * h) * y + (c * c + f * f + i * i) * z"
    by (simp add: algebra_simps)
  then have 3: "c * (a * x + b * y + c * z) + f * (d * x + e * y + f * z) + i * (g * x + h * y + i * z) = z"
    unfolding o by simp
  show ?thesis
    unfolding R p transpose3_def mat_vec_def dot3_def using 1 2 3 by simp
qed


lemma mat_vec_scale: "mat_vec M (vec_scale c v) = vec_scale c (mat_vec M v)"
  by (cases M rule: prod_cases3; cases v rule: prod_cases3)
     (auto simp: mat_vec_def vec_scale_def dot3_def algebra_simps split: prod.splits)

lemma vec_sub_add: "vec_sub (vec_add a b) b = a"
  by (cases a rule: prod_cases3; cases b rule: prod_cases3) (simp add: vec_sub_def vec_add_def)

lemma vec_scale_scale: "vec_scale c (vec_scale d v) = vec_scale (c * d) v"
  by (cases v rule: prod_cases3) (simp add: vec_scale_def)

lemma vec_scale_one: "vec_scale 1 v = v"
  by (cases v rule: prod_cases3) (simp add: vec_scale_def)

lemma back_project_project:
  assumes inv: "linalg_inv K = Inr K_inv"
    and orth: "mat_mul (transpose3 R) R = eye3"
    and s: "s \<noteq> 0"
    and z: "snd (snd (camera_coords K R t p)) \<noteq> 0"
  shows "back_project K_inv R t s (snd (snd (camera_coords K R t p)), project K R t s p) = p"
proof -
  obtain x y z where c: "camera_coords K R t p = (x, y, z)" by (metis prod_cases3)
  have z0: "z \<noteq> 0" using z c by simp
  have "(x / z / s * s, y / z / s * s, 1) = vec_scale (1 / z) (camera_coords K R t p)"
    using s z0 by (simp add: c vec_scale_def)
  then have "vec_scale z (mat_vec K_inv (x / z / s * s, y / z / s * s, 1))
      = vec_scale z (vec_scale (1 / z) (mat_vec K_inv (camera_coords K R t p)))"
    by (simp add: mat_vec_scale)
  also have "\<dots> = vec_add (mat_vec R p) t"
    using z0 by (simp add: vec_scale_scale vec_scale_one camera_coords_def linalg_inv_cancel [OF inv])
  finally show ?thesis
    by (simp add: back_project_def project_def c vec_sub_add orthogonal_cancel [OF orth])
qed

lemma world2image_float:
  assumes "s \<noteq> 0" and "\<forall>p \<in> set ps. snd (snd (camera_coords K R t p)) \<noteq> 0"
  shows "world2image ps K R t s False =
           Inr (map (project K R t s) ps, map (\<lambda>p. snd (snd (camera_coords K R t p))) ps)"
proof -
  have "0 \<notin> set (map (\<lambda>(x, y, z). z) (map (\<lambda>p. mat_vec K (vec_add (mat_vec R p) t)) ps))"
    using assms(2) by (auto simp: camera_coords_def split: prod.splits)
  moreover have "map (\<lambda>(x, y, z). z) (map (\<lambda>p. mat_vec K (vec_add (mat_vec R p) t)) ps)
                 = map (\<lambda>p. snd (snd (camera_coords K R t p))) ps"
    by (simp add: camera_coords_def split_beta)
  moreover have "map (\<lambda>(x, y, z). (x / z / s, y / z / s)) (map (\<lambda>p. mat_vec K (vec_add (mat_vec R p) t)) ps)
                 = map (project K R t s) ps"
    by (simp add: project_def camera_coords_def split_beta)
  ultimately show ?thesis
    using assms(1) unfolding world2image_def Let_def by simp
qed

lemma image2world_eq:
  assumes "linalg_inv K = Inr K_inv" and "length ds = length qs"
  shows "image2world qs ds K R t s = Inr (map (back_project K_inv R t s) (zip ds qs))"
  using assms
  by (simp add: image2world_def Let_def back_project_def zip_map2 split_beta)

text \<open>
  C3. Over exact real arithmetic and with a floating-point \<^verbatim>\<open>dtype\<close> (no rounding),
  projecting a list of points with \<^verbatim>\<open>world2image\<close> and back-projecting the
  pixels and depths it returns with \<^verbatim>\<open>image2world\<close>, under the same \<open>K\<close>,
  \<open>R\<close>, \<open>t\<close> and scale factor, gives the points back, whenever every point has
  strictly positive depth under the pose. The camera parameters are those of a camera:
  \<open>K\<close> is invertible, \<open>R\<close> is a rotation (its transpose is its inverse) and the
  scale factor is not zero.
\<close>

theorem world2image_image2world_roundtrip:
  assumes inv: "det3 K \<noteq> 0"
    and orth: "mat_mul (transpose3 R) R = eye3"
    and s: "s \<noteq> 0"
    and z: "\<forall>p \<in> set ps. 0 < depth_under_pose K R t p"
  shows "\<exists>px ds. world2image ps K R t s False = Inr (px, ds) \<and> image2world px ds K R t s = Inr ps"
proof -
  obtain K_inv where K_inv: "linalg_inv K = Inr K_inv"
    using inv by (cases K rule: prod_cases3; cases "fst K" rule: prod_cases3)
      (auto simp: linalg_inv_def Let_def split: prod.splits)
  have nz: "\<forall>p \<in> set ps. snd (snd (camera_coords K R t p)) \<noteq> 0"
    using z by (fastforce simp: depth_under_pose_def camera_coords_def split_beta)
  let ?px = "map (project K R t s) ps"
  let ?ds = "map (\<lambda>p. snd (snd (camera_coords K R t p))) ps"
  have "map (back_project K_inv R t s) (zip ?ds ?px) = ps"
    using nz
  proof (induction ps)
    case Nil
    then show ?case by simp
  next
    case (Cons p ps)
    then show ?case
      using back_project_project [OF K_inv orth s, of t p] by simp
  qed
  then have "image2world ?px ?ds K R t s = Inr ps"
    using image2world_eq [OF K_inv, of ?ds ?px R t s] by simp
  then show ?thesis
    using world2image_float [OF s nz] by blast
qed

theorem world2image_image2world_roundtrip_witness:
  "world2image [(1, 2, 3), (0, 0, 1)] ((2, 0, 1), (0, 2, 1), (0, 0, 1))
       ((0, -1, 0), (1, 0, 0), (0, 0, 1)) (0, 0, 5) 2 False
     = Inr ([(1 / 4, 5 / 8), (1 / 2, 1 / 2)], [8, 6])
   \<and> image2world [(1 / 4, 5 / 8), (1 / 2, 1 / 2)] [8, 6] ((2, 0, 1), (0, 2, 1), (0, 0, 1))
       ((0, -1, 0), (1, 0, 0), (0, 0, 1)) (0, 0, 5) 2
     = Inr [(1, 2, 3), (0, 0, 1)]"
proof -
  let ?K = "((2, 0, 1), (0, 2, 1), (0, 0, 1)) :: mat3"
  let ?R = "((0, -1, 0), (1, 0, 0), (0, 0, 1)) :: mat3"
  let ?t = "(0, 0, 5) :: vec3"
  let ?ps = "[(1, 2, 3), (0, 0, 1)] :: vec3 list"
  have K: "det3 ?K \<noteq> 0" by (simp add: det3_def)
  have R: "mat_mul (transpose3 ?R) ?R = eye3"
    by (simp add: mat_mul_def transpose3_def eye3_def dot3_def)
  have s: "(2::real) \<noteq> 0" by simp
  have z: "\<forall>p \<in> set ?ps. 0 < depth_under_pose ?K ?R ?t p"
    by (simp add: depth_under_pose_def mat_vec_def vec_add_def dot3_def)
  have w: "world2image ?ps ?K ?R ?t 2 False = Inr ([(1 / 4, 5 / 8), (1 / 2, 1 / 2)], [8, 6])"
    by (simp add: world2image_def mat_vec_def vec_add_def dot3_def)
  from world2image_image2world_roundtrip [OF K R s z] w
  show ?thesis by simp
qed

section \<open>Properties of the constructor and of the statistics\<close>

text \<open>
  C10. The constructor raises (a ValueError, the configuration error of the
  specification) when \<open>min_features\<close> is below \<open>5\<close> and when \<open>max_features\<close> is set and
  is not greater than \<open>min_features\<close>. No extractor is returned then, and an extractor
  that is returned holds the two values exactly as they were given: nothing is clamped.
\<close>

theorem constructor_rejects_invalid:
  "(min_feat < 5 \<or> (\<exists>m. max_feat = Some m \<and> m \<le> min_feat)
      \<longrightarrow> FeatureExtractor_init ds pairs min_feat max_feat ignore_dynamic = Inl ValueError)
   \<and> (\<forall>self ws. FeatureExtractor_init ds pairs min_feat max_feat ignore_dynamic = Inr (self, ws)
      \<longrightarrow> min_features self = min_feat \<and> max_features self = max_feat
          \<and> 5 \<le> min_feat \<and> (\<forall>m. max_feat = Some m \<longrightarrow> min_feat < m))"
  by (auto simp: FeatureExtractor_init_def Let_def split: option.splits if_splits)

theorem constructor_rejects_invalid_witness:
  "FeatureExtractor_init (example_dataset 2 []) [(0, 1)] 3 None True = Inl ValueError
   \<and> FeatureExtractor_init (example_dataset 2 []) [(0, 1)] 20 (Some 20) True = Inl ValueError
   \<and> (\<exists>self ws. FeatureExtractor_init (example_dataset 2 []) [(0, 1)] 5 (Some 6) True
                   = Inr (self, ws)
        \<and> min_features self = 5 \<and> max_features self = Some 6)"
proof -
  have a: "FeatureExtractor_init (example_dataset 2 []) [(0, 1)] 3 None True = Inl ValueError"
    using constructor_rejects_invalid [of 3 None "example_dataset 2 []" "[(0, 1)]" True]
    by simp
  have b: "FeatureExtractor_init (example_dataset 2 []) [(0, 1)] 20 (Some 20) True
             = Inl ValueError"
    using constructor_rejects_invalid [of 20 "Some 20" "example_dataset 2 []" "[(0, 1)]" True]
    by simp
  obtain self ws where
    c: "FeatureExtractor_init (example_dataset 2 []) [(0, 1)] 5 (Some 6) True = Inr (self, ws)"
    by (simp add: FeatureExtractor_init_def)
  with constructor_rejects_invalid [of 5 "Some 6" "example_dataset 2 []" "[(0, 1)]" True]
  have "min_features self = 5 \<and> max_features self = Some 6"
    by blast
  with a b c show ?thesis by blast
qed

subsection \<open>The scan for groups of consecutive frames\<close>

lemma maximal_runs_Suc:
  "maximal_runs S (Suc n) =
     maximal_runs S n + (if int n \<in> S \<and> (n = 0 \<or> int n - 1 \<notin> S) then 1 else 0)"
  by (simp add: maximal_runs_def)

text \<open>The invariant of the loop: the closed chunks and the open one count the runs seen so
  far, and a chunk is open exactly when the last index seen is covered.\<close>

lemma chunk_scan_invariant:
  "fold (chunk_step S) [0..<n] ([], []) = (chunks, chunk) \<Longrightarrow>
     length chunks + (if chunk = [] then 0 else 1) = maximal_runs S n
     \<and> (chunk \<noteq> [] \<longleftrightarrow> 0 < n \<and> int n - 1 \<in> S)"
proof (induction n arbitrary: chunks chunk)
  case 0
  then show ?case by (simp add: maximal_runs_def)
next
  case (Suc n)
  obtain cs c where prev: "fold (chunk_step S) [0..<n] ([], []) = (cs, c)"
    by (cases "fold (chunk_step S) [0..<n] ([], [])")
  from Suc.IH [OF prev]
  have count: "length cs + (if c = [] then 0 else 1) = maximal_runs S n"
    and last: "c \<noteq> [] \<longleftrightarrow> 0 < n \<and> int n - 1 \<in> S"
    by simp_all
  from Suc.prems prev have step: "chunk_step S n (cs, c) = (chunks, chunk)"
    by simp
  show ?case
  proof (cases "int n \<in> S")
    case True
    with step have "chunks = cs" "chunk = c @ [n]"
      by (simp_all add: chunk_step_def)
    with True count last show ?thesis
      by (auto simp: maximal_runs_Suc)
  next
    case False
    show ?thesis
    proof (cases "c = []")
      case True
      with False step have "chunks = cs" "chunk = []"
        by (simp_all add: chunk_step_def)
      with False True count show ?thesis
        by (auto simp: maximal_runs_Suc)
    next
      case nonempty: False
      with False step have "chunks = cs @ [c]" "chunk = []"
        by (simp_all add: chunk_step_def)
      with False nonempty count show ?thesis
        by (auto simp: maximal_runs_Suc)
    qed
  qed
qed

lemma length_frame_chunks: "length (frame_chunks S N) = maximal_runs S N"
proof -
  obtain cs c where st: "fold (chunk_step S) [0..<N] ([], []) = (cs, c)"
    by (cases "fold (chunk_step S) [0..<N] ([], [])")
  from chunk_scan_invariant [OF st] show ?thesis
    by (auto simp: frame_chunks_def st split: if_splits)
qed

text \<open>
  C4. For a dataset with at least one frame, the coverage that is logged is the number of
  distinct frame indices in the two index lists (the indices on either side of the
  accepted correspondences) divided by the number of frames, and the number of groups
  that is logged is the number of maximal runs of consecutive covered indices among
  \<open>0, \<dots>, N - 1\<close>. Indices \<open>0, 1, 2, 5, 6\<close> out of \<open>8\<close> frames give \<open>5 / 8\<close> and \<open>2\<close>.
\<close>

theorem coverage_statistics:
  assumes "0 < num_frames (dataset self)"
  shows "\<exists>st. print_results_stats self index_i index_j num_good = Inr st
           \<and> coverage st = real (card (set index_i \<union> set index_j))
                              / real (num_frames (dataset self))
           \<and> groups st = maximal_runs (set index_i \<union> set index_j) (num_frames (dataset self))"
  using assms by (simp add: print_results_stats_def Let_def length_frame_chunks)

lemma example_coverage_values:
  "card (set [0, 1, 5] \<union> set [1, 2, 6 :: int]) = 5"
  "maximal_runs (set [0, 1, 5] \<union> set [1, 2, 6]) 8 = 2"
  "frame_chunks (set ([0, 1, 5] @ [1, 2, 6])) 8 = [[0, 1, 2], [5, 6]]"
  by code_simp+

theorem coverage_statistics_witness:
  "0 < num_frames (dataset (example_extractor 8 [] [(0, 1), (1, 2), (5, 6)] 20))
   \<and> (\<exists>st. print_results_stats (example_extractor 8 [] [(0, 1), (1, 2), (5, 6)] 20)
             [0, 1, 5] [1, 2, 6] 3 = Inr st
          \<and> coverage st = 5 / 8 \<and> groups st = 2)"
proof -
  have h: "0 < num_frames (dataset (example_extractor 8 [] [(0, 1), (1, 2), (5, 6)] 20))"
    by (simp add: example_extractor_def example_dataset_def)
  have n: "num_frames (dataset (example_extractor 8 [] [(0, 1), (1, 2), (5, 6)] 20)) = 8"
    by (simp add: example_extractor_def example_dataset_def)
  from coverage_statistics [OF h, of "[0, 1, 5]" "[1, 2, 6]" 3] h
  show ?thesis
    unfolding n example_coverage_values by simp
qed

section \<open>Properties of the correspondence extractor\<close>

subsection \<open>The loop of the ratio test and the depth test\<close>

lemma step_decision:
  "filter_matches_step self i j kpi kpj (k, mn) (ps_i, ps_j, ds_i, ds_j, mm) =
     (case decision self i j kpi kpj mn of
        Inl e \<Rightarrow> Inl e
      | Inr None \<Rightarrow> Inr (ps_i, ps_j, ds_i, ds_j, mm)
      | Inr (Some (p, q, d, e)) \<Rightarrow>
          Inr (ps_i @ [p], ps_j @ [q], ds_i @ [d], ds_j @ [e], mm[k := (1, snd (mm ! k))]))"
proof -
  consider (two) m n where "mn = [m, n]" | (other) "\<forall>m n. mn \<noteq> [m, n]"
    by blast
  then show ?thesis
  proof cases
    case two
    then show ?thesis
      by (auto simp: filter_matches_step_def decision_def endpoints_def split: sum.splits)
  next
    case other
    then show ?thesis
      by (auto simp: filter_matches_step_def decision_def split: list.splits)
  qed
qed

lemma kept_simps [simp]:
  "kept [] = []" "kept (None # rs) = kept rs" "kept (Some r # rs) = r # kept rs"
  by (simp_all add: kept_def)

lemma filter_fold:
  "fold_err (filter_matches_step self i j kpi kpj) (enumerate a ms) (ps_i, ps_j, ds_i, ds_j, mm)
     = Inr (ps_i', ps_j', ds_i', ds_j', mm') \<Longrightarrow>
   \<exists>rs. map (decision self i j kpi kpj) ms = map Inr rs
      \<and> ps_i' = ps_i @ map fst (kept rs)
      \<and> ps_j' = ps_j @ map (fst \<circ> snd) (kept rs)
      \<and> ds_i' = ds_i @ map (fst \<circ> snd \<circ> snd) (kept rs)
      \<and> ds_j' = ds_j @ map (snd \<circ> snd \<circ> snd) (kept rs)
      \<and> length mm' = length mm
      \<and> (\<forall>k < length mm. mm' ! k =
            (if a \<le> k \<and> k < a + length ms \<and> rs ! (k - a) \<noteq> None then (1, snd (mm ! k))
             else mm ! k))"
proof (induction ms arbitrary: a ps_i ps_j ds_i ds_j mm)
  case Nil
  then show ?case by auto
next
  case (Cons mn ms)
  show ?case
  proof (cases "decision self i j kpi kpj mn")
    case (Inl e)
    with Cons.prems show ?thesis by (simp add: enumerate_simps step_decision)
  next
    case (Inr r)
    show ?thesis
    proof (cases r)
      case None
      with Inr Cons.prems
      have "fold_err (filter_matches_step self i j kpi kpj) (enumerate (Suc a) ms)
              (ps_i, ps_j, ds_i, ds_j, mm) = Inr (ps_i', ps_j', ds_i', ds_j', mm')"
        by (simp add: step_decision)
      from Cons.IH [OF this] obtain rs where rs:
        "map (decision self i j kpi kpj) ms = map Inr rs"
        "ps_i' = ps_i @ map fst (kept rs)"
        "ps_j' = ps_j @ map (fst \<circ> snd) (kept rs)"
        "ds_i' = ds_i @ map (fst \<circ> snd \<circ> snd) (kept rs)"
        "ds_j' = ds_j @ map (snd \<circ> snd \<circ> snd) (kept rs)"
        "length mm' = length mm"
        "\<forall>k < length mm. mm' ! k =
            (if Suc a \<le> k \<and> k < Suc a + length ms \<and> rs ! (k - Suc a) \<noteq> None
             then (1, snd (mm ! k)) else mm ! k)"
        by blast
      have c7: "\<forall>k < length mm. mm' ! k =
            (if a \<le> k \<and> k < a + length (mn # ms) \<and> (None # rs) ! (k - a) \<noteq> None
             then (1, snd (mm ! k)) else mm ! k)"
      proof (intro allI impI)
        fix k assume "k < length mm"
        then show "mm' ! k =
            (if a \<le> k \<and> k < a + length (mn # ms) \<and> (None # rs) ! (k - a) \<noteq> None
             then (1, snd (mm ! k)) else mm ! k)"
          using rs(7) by (cases "k = a") (auto simp: nth_Cons' Suc_diff_le)
      qed
      have c1: "map (decision self i j kpi kpj) (mn # ms) = map Inr (None # rs)"
        using rs(1) Inr None by simp
      have c2: "ps_i' = ps_i @ map fst (kept (None # rs))"
        and c3: "ps_j' = ps_j @ map (fst \<circ> snd) (kept (None # rs))"
        and c4: "ds_i' = ds_i @ map (fst \<circ> snd \<circ> snd) (kept (None # rs))"
        and c5: "ds_j' = ds_j @ map (snd \<circ> snd \<circ> snd) (kept (None # rs))"
        using rs(2-5) by simp_all
      show ?thesis using c1 c2 c3 c4 c5 rs(6) c7 by blast
    next
      case (Some row)
      let ?mm = "mm[a := (1, snd (mm ! a))]"
      from Inr Some Cons.prems
      have "fold_err (filter_matches_step self i j kpi kpj) (enumerate (Suc a) ms)
              (ps_i @ [fst row], ps_j @ [fst (snd row)], ds_i @ [fst (snd (snd row))],
               ds_j @ [snd (snd (snd row))], ?mm)
            = Inr (ps_i', ps_j', ds_i', ds_j', mm')"
        by (cases row rule: prod_cases4) (simp add: step_decision)
      from Cons.IH [OF this] obtain rs where rs:
        "map (decision self i j kpi kpj) ms = map Inr rs"
        "ps_i' = (ps_i @ [fst row]) @ map fst (kept rs)"
        "ps_j' = (ps_j @ [fst (snd row)]) @ map (fst \<circ> snd) (kept rs)"
        "ds_i' = (ds_i @ [fst (snd (snd row))]) @ map (fst \<circ> snd \<circ> snd) (kept rs)"
        "ds_j' = (ds_j @ [snd (snd (snd row))]) @ map (snd \<circ> snd \<circ> snd) (kept rs)"
        "length mm' = length ?mm"
        "\<forall>k < length ?mm. mm' ! k =
            (if Suc a \<le> k \<and> k < Suc a + length ms \<and> rs ! (k - Suc a) \<noteq> None
             then (1, snd (?mm ! k)) else ?mm ! k)"
        by blast
      have c7: "\<forall>k < length mm. mm' ! k =
            (if a \<le> k \<and> k < a + length (mn # ms) \<and> (Some row # rs) ! (k - a) \<noteq> None
             then (1, snd (mm ! k)) else mm ! k)"
      proof (intro allI impI)
        fix k assume "k < length mm"
        then show "mm' ! k =
            (if a \<le> k \<and> k < a + length (mn # ms) \<and> (Some row # rs) ! (k - a) \<noteq> None
             then (1, snd (mm ! k)) else mm ! k)"
          using rs(7) by (cases "k = a") (auto simp: nth_Cons' Suc_diff_le)
      qed
      have c1: "map (decision self i j kpi kpj) (mn # ms) = map Inr (Some row # rs)"
        using rs(1) Inr Some by simp
      have c2: "ps_i' = ps_i @ map fst (kept (Some row # rs))"
        and c3: "ps_j' = ps_j @ map (fst \<circ> snd) (kept (Some row # rs))"
        and c4: "ds_i' = ds_i @ map (fst \<circ> snd \<circ> snd) (kept (Some row # rs))"
        and c5: "ds_j' = ds_j @ map (snd \<circ> snd \<circ> snd) (kept (Some row # rs))"
        using rs(2-5) by simp_all
      have c6: "length mm' = length mm" using rs(6) by simp
      show ?thesis using c1 c2 c3 c4 c5 c6 c7 by blast
    qed
  qed
qed

lemma filter_matches_char:
  assumes "filter_matches self i j kpi kpj ms = Inr (ps_i, ps_j, ds_i, ds_j, mm)"
  shows "\<exists>rs. map (decision self i j kpi kpj) ms = map Inr rs
      \<and> ps_i = map fst (kept rs)
      \<and> ps_j = map (fst \<circ> snd) (kept rs)
      \<and> ds_i = map (fst \<circ> snd \<circ> snd) (kept rs)
      \<and> ds_j = map (snd \<circ> snd \<circ> snd) (kept rs)
      \<and> length mm = length ms
      \<and> (\<forall>k < length ms. mm ! k = (if rs ! k \<noteq> None then (1, 0) else (0, 0)))"
proof -
  from filter_fold [OF assms [unfolded filter_matches_def]]
  obtain rs where rs:
    "map (decision self i j kpi kpj) ms = map Inr rs"
    "ps_i = [] @ map fst (kept rs)"
    "ps_j = [] @ map (fst \<circ> snd) (kept rs)"
    "ds_i = [] @ map (fst \<circ> snd \<circ> snd) (kept rs)"
    "ds_j = [] @ map (snd \<circ> snd \<circ> snd) (kept rs)"
    "length mm = length (replicate (length ms) (0::nat, 0::nat))"
    "\<forall>k < length (replicate (length ms) (0::nat, 0::nat)). mm ! k =
        (if 0 \<le> k \<and> k < 0 + length ms \<and> rs ! (k - 0) \<noteq> None
         then (1, snd (replicate (length ms) (0::nat, 0::nat) ! k))
         else replicate (length ms) (0, 0) ! k)"
    by blast
  have "\<forall>k < length ms. mm ! k = (if rs ! k \<noteq> None then (1, 0) else (0, 0))"
    using rs(7) by simp
  with rs(1-6) show ?thesis by auto
qed

lemma kept_indices:
  "kept rs = map (\<lambda>k. the (rs ! k)) (filter (\<lambda>k. rs ! k \<noteq> None) [0..<length rs])"
proof -
  have "kept rs = kept (map (\<lambda>k. rs ! k) [0..<length rs])"
    by (simp add: map_nth)
  also have "\<dots> = map (\<lambda>k. the (rs ! k)) (filter (\<lambda>k. rs ! k \<noteq> None) [0..<length rs])"
    unfolding kept_def by (simp add: filter_map comp_def)
  finally show ?thesis .
qed

lemma zip_projections:
  "zip (map fst cs) (zip (map (fst \<circ> snd) cs)
        (zip (map (fst \<circ> snd \<circ> snd) cs) (map (snd \<circ> snd \<circ> snd) cs))) = cs"
  by (induction cs) auto

lemma decision_Some_iff:
  "decision self i j kpi kpj [m, n] = Inr (Some c) \<longleftrightarrow>
     distance m \<le> double_mul double_0_7 (distance n) \<and> endpoints self i j kpi kpj m = Inr c
     \<and> fst (snd (snd c)) \<noteq> 0 \<and> snd (snd (snd c)) \<noteq> 0"
  by (cases c rule: prod_cases4) (auto simp: decision_def split: sum.splits)

lemma endpoints_Inr_iff:
  "endpoints self i j kpi kpj m = Inr (p, q, d, e) \<longleftrightarrow>
     (\<exists>kp_i kp_j. py_index kpi (queryIdx m) = Inr kp_i
        \<and> depth_at (depth_maps self) i (pt kp_i) = Inr d
        \<and> py_index kpj (trainIdx m) = Inr kp_j
        \<and> depth_at (depth_maps self) j (pt kp_j) = Inr e
        \<and> p = pt kp_i \<and> q = pt kp_j)"
  by (auto simp: endpoints_def split: sum.splits)

lemma filter_matches_marks:
  assumes "filter_matches self i j kpi kpj matches = Inr (ps_i, ps_j, ds_i, ds_j, mm)"
  shows "(\<forall>k < length matches.
            mm ! k = (1, 0) \<longleftrightarrow> (\<exists>c. decision self i j kpi kpj (matches ! k) = Inr (Some c)))
       \<and> zip ps_i (zip ps_j (zip ds_i ds_j)) =
           map (\<lambda>k. projr (endpoints self i j kpi kpj (hd (matches ! k))))
               (filter (\<lambda>k. mm ! k = (1, 0)) [0..<length matches])"
proof -
  from filter_matches_char [OF assms] obtain rs where rs:
    "map (decision self i j kpi kpj) matches = map Inr rs"
    "ps_i = map fst (kept rs)"
    "ps_j = map (fst \<circ> snd) (kept rs)"
    "ds_i = map (fst \<circ> snd \<circ> snd) (kept rs)"
    "ds_j = map (snd \<circ> snd \<circ> snd) (kept rs)"
    "length mm = length matches"
    "\<forall>k < length matches. mm ! k = (if rs ! k \<noteq> None then (1, 0) else (0, 0))"
    by blast
  have len: "length rs = length matches"
    using rs(1) by (metis length_map)
  have dec: "decision self i j kpi kpj (matches ! k) = Inr (rs ! k)" if "k < length matches" for k
    using rs(1) that len by (metis nth_map)
  have mark: "mm ! k = (1, 0) \<longleftrightarrow> rs ! k \<noteq> None" if "k < length matches" for k
    using rs(7) that by simp
  have first: "mm ! k = (1, 0) \<longleftrightarrow> (\<exists>c. decision self i j kpi kpj (matches ! k) = Inr (Some c))"
    if "k < length matches" for k
    using mark [OF that] dec [OF that] by auto
  have "zip ps_i (zip ps_j (zip ds_i ds_j)) = kept rs"
    unfolding rs(2-5) by (rule zip_projections)
  also have "\<dots> = map (\<lambda>k. the (rs ! k)) (filter (\<lambda>k. rs ! k \<noteq> None) [0..<length matches])"
    using kept_indices [of rs] len by simp
  also have "\<dots> = map (\<lambda>k. projr (endpoints self i j kpi kpj (hd (matches ! k))))
               (filter (\<lambda>k. mm ! k = (1, 0)) [0..<length matches])"
  proof -
    have f: "filter (\<lambda>k. rs ! k \<noteq> None) [0..<length matches]
             = filter (\<lambda>k. mm ! k = (1, 0)) [0..<length matches]"
      using mark by (intro filter_cong) auto
    have "the (rs ! k) = projr (endpoints self i j kpi kpj (hd (matches ! k)))"
      if "k < length matches" "rs ! k \<noteq> None" for k
    proof -
      from that(2) obtain c where c: "rs ! k = Some c" by blast
      with dec [OF that(1)] have d: "decision self i j kpi kpj (matches ! k) = Inr (Some c)"
        by simp
      then obtain m n where mn: "matches ! k = [m, n]"
        by (auto simp: decision_def split: list.splits)
      with d have "endpoints self i j kpi kpj m = Inr c"
        by (simp add: decision_Some_iff)
      with c mn show ?thesis by simp
    qed
    then show ?thesis unfolding f [symmetric] by (intro map_cong) auto
  qed
  finally show ?thesis using first by blast
qed

lemma depth_test_iff:
  assumes "filter_matches self i j kpi kpj matches = Inr (ps_i, ps_j, ds_i, ds_j, mm)"
    and "k < length matches" and "matches ! k = [m, n]"
    and "distance m \<le> double_mul double_0_7 (distance n)"
    and "py_index kpi (queryIdx m) = Inr kp_i"
    and "depth_at (depth_maps self) i (pt kp_i) = Inr d"
    and "py_index kpj (trainIdx m) = Inr kp_j"
    and "depth_at (depth_maps self) j (pt kp_j) = Inr e"
  shows "mm ! k = (1, 0) \<longleftrightarrow> d \<noteq> 0 \<and> e \<noteq> 0"
proof -
  have ep: "endpoints self i j kpi kpj m = Inr (pt kp_i, pt kp_j, d, e)"
    using assms(5-8) by (simp add: endpoints_Inr_iff)
  from filter_matches_marks [OF assms(1)] assms(2,3)
  have "mm ! k = (1, 0) \<longleftrightarrow> (\<exists>c. decision self i j kpi kpj [m, n] = Inr (Some c))"
    by auto
  also have "\<dots> \<longleftrightarrow> d \<noteq> 0 \<and> e \<noteq> 0"
    unfolding decision_Some_iff using assms(4) ep by auto
  finally show ?thesis .
qed

subsection \<open>Selection by a boolean array\<close>

lemma boolean_mask_Inr:
  "boolean_mask bs xs = Inr ys \<longleftrightarrow> length bs = length xs \<and> ys = select bs xs"
  by (auto simp: boolean_mask_def select_def)

lemma select_map: "select bs (map f xs) = map f (select bs xs)"
proof (induction bs arbitrary: xs)
  case Nil
  then show ?case by (simp add: select_def)
next
  case (Cons b bs)
  then show ?case by (cases xs) (auto simp: select_def)
qed

lemma set_select: "set (select bs xs) \<subseteq> set xs"
  by (auto simp: select_def dest: set_zip_rightD)

lemma filter_matches_ransac_char:
  assumes "filter_matches_ransac cv ps_i ps_j ds_i ds_j mm = Inr (ps_i', ps_j', ds_i', ds_j', mm')"
  shows "\<exists>bs. ps_i' = select bs ps_i \<and> ps_j' = select bs ps_j
            \<and> ds_i' = select bs ds_i \<and> ds_j' = select bs ds_j"
proof -
  from assms obtain inlier_mask where
    "findHomography cv ps_i ps_j = Inr (Some inlier_mask)"
    by (auto simp: filter_matches_ransac_def split: sum.splits option.splits)
  with assms have
    "ps_i' = select (map (\<lambda>v. v > 0) inlier_mask) ps_i
     \<and> ps_j' = select (map (\<lambda>v. v > 0) inlier_mask) ps_j
     \<and> ds_i' = select (map (\<lambda>v. v > 0) inlier_mask) ds_i
     \<and> ds_j' = select (map (\<lambda>v. v > 0) inlier_mask) ds_j"
    by (auto simp: filter_matches_ransac_def Let_def boolean_mask_Inr split: sum.splits)
  then show ?thesis by blast
qed

subsection \<open>The result for one frame pair\<close>

lemma kept_decisions:
  "map dec ms = map Inr rs \<Longrightarrow>
     concat (map (\<lambda>mn. case dec mn of Inr (Some c) \<Rightarrow> [c] | _ \<Rightarrow> []) ms) = kept rs"
proof (induction ms arbitrary: rs)
  case Nil
  then show ?case by simp
next
  case (Cons mn ms)
  then obtain r rs' where rs: "rs = r # rs'" "dec mn = Inr r" "map dec ms = map Inr rs'"
    by (cases rs) auto
  with Cons.IH [of rs'] show ?case by (cases r) simp_all
qed

lemma get_image_features_Some:
  assumes "get_image_features cv self (i, j) = (ev, Inr (Some r))"
  shows "\<exists>cs. set cs \<subseteq> set (pair_correspondences cv self (i, j))
            \<and> min_features self \<le> int (length cs)
            \<and> r = \<lparr>frame_i = \<lparr>index = i, points = map fst cs,
                                depth = map (fst \<circ> snd \<circ> snd) cs\<rparr>,
                     frame_j = \<lparr>index = j, points = map (fst \<circ> snd) cs,
                                depth = map (snd \<circ> snd \<circ> snd) cs\<rparr>\<rparr>"
proof -
  obtain ev_i res_i where di: "get_key_points_and_descriptors cv self i = (ev_i, res_i)"
    by (cases "get_key_points_and_descriptors cv self i")
  obtain ev_j res_j where dj: "get_key_points_and_descriptors cv self j = (ev_j, res_j)"
    by (cases "get_key_points_and_descriptors cv self j")
  from assms di obtain kpi desi where ri: "res_i = Inr (kpi, desi)"
    by (cases res_i) (auto simp: get_image_features_def)
  from assms di dj ri obtain kpj desj where rj: "res_j = Inr (kpj, desj)"
    by (cases res_j) (auto simp: get_image_features_def)
  from assms di dj ri rj obtain matches where m: "knnMatch cv desi desj = Inr matches"
    by (cases "knnMatch cv desi desj") (auto simp: get_image_features_def split: if_splits)
  from assms di dj ri rj m obtain ps_i ps_j ds_i ds_j mm where
    f: "filter_matches self i j kpi kpj matches = Inr (ps_i, ps_j, ds_i, ds_j, mm)"
    by (cases "filter_matches self i j kpi kpj matches")
       (auto simp: get_image_features_def split: if_splits)
  from assms di dj ri rj m f obtain ps_i' ps_j' ds_i' ds_j' mm' where
    g: "filter_matches_ransac cv ps_i ps_j ds_i ds_j mm = Inr (ps_i', ps_j', ds_i', ds_j', mm')"
    by (cases "filter_matches_ransac cv ps_i ps_j ds_i ds_j mm")
       (auto simp: get_image_features_def split: if_splits)
  from assms di dj ri rj m f g have
    r: "r = \<lparr>frame_i = \<lparr>index = i, points = ps_i', depth = ds_i'\<rparr>,
             frame_j = \<lparr>index = j, points = ps_j', depth = ds_j'\<rparr>\<rparr>"
    and enough: "min_features self \<le> int (length ps_i')"
    by (auto simp: get_image_features_def split: if_splits)
  from filter_matches_char [OF f] obtain rs where rs:
    "map (decision self i j kpi kpj) matches = map Inr rs"
    "ps_i = map fst (kept rs)"
    "ps_j = map (fst \<circ> snd) (kept rs)"
    "ds_i = map (fst \<circ> snd \<circ> snd) (kept rs)"
    "ds_j = map (snd \<circ> snd \<circ> snd) (kept rs)"
    by blast
  from filter_matches_ransac_char [OF g] obtain bs where bs:
    "ps_i' = select bs ps_i" "ps_j' = select bs ps_j"
    "ds_i' = select bs ds_i" "ds_j' = select bs ds_j"
    by blast
  let ?cs = "select bs (kept rs)"
  have "pair_correspondences cv self (i, j) = kept rs"
    using di dj ri rj m kept_decisions [OF rs(1)] by (simp add: pair_correspondences_def)
  then have 1: "set ?cs \<subseteq> set (pair_correspondences cv self (i, j))"
    using set_select [of bs "kept rs"] by simp
  have 2: "min_features self \<le> int (length ?cs)"
    using enough by (simp add: bs(1) rs(2) select_map)
  have 3: "r = \<lparr>frame_i = \<lparr>index = i, points = map fst ?cs,
                                depth = map (fst \<circ> snd \<circ> snd) ?cs\<rparr>,
                     frame_j = \<lparr>index = j, points = map (fst \<circ> snd) ?cs,
                                depth = map (snd \<circ> snd \<circ> snd) ?cs\<rparr>\<rparr>"
    unfolding r bs rs(2-5) by (simp add: select_map)
  from 1 2 3 show ?thesis by blast
qed

lemma pair_correspondences_nonzero:
  assumes "c \<in> set (pair_correspondences cv self fp)"
  shows "fst (snd (snd c)) \<noteq> 0 \<and> snd (snd (snd c)) \<noteq> 0"
proof -
  obtain i j where fp: "fp = (i, j)" by (cases fp)
  from assms obtain kpi kpj mn where "decision self i j kpi kpj mn = Inr (Some c)"
    unfolding fp pair_correspondences_def
    by (auto split: sum.splits option.splits prod.splits)
  then show ?thesis
    by (cases c rule: prod_cases4)
       (auto simp: decision_def split: list.splits if_splits sum.splits)
qed

lemma pair_correspondences_lookup:
  assumes "c \<in> set (pair_correspondences cv self (i, j))"
  shows "depth_at (depth_maps self) i (fst c) = Inr (fst (snd (snd c)))
       \<and> depth_at (depth_maps self) j (fst (snd c)) = Inr (snd (snd (snd c)))
       \<and> fst (snd (snd c)) \<noteq> 0 \<and> snd (snd (snd c)) \<noteq> 0"
proof -
  from assms obtain kpi kpj mn where d: "decision self i j kpi kpj mn = Inr (Some c)"
    unfolding pair_correspondences_def
    by (auto split: sum.splits option.splits prod.splits)
  then obtain m n where "mn = [m, n]"
    by (auto simp: decision_def split: list.splits)
  with d have ep: "endpoints self i j kpi kpj m = Inr c"
    and nz: "fst (snd (snd c)) \<noteq> 0" "snd (snd (snd c)) \<noteq> 0"
    by (simp_all add: decision_Some_iff)
  obtain p q dd ee where c: "c = (p, q, dd, ee)" by (cases c rule: prod_cases4)
  from ep [unfolded c endpoints_Inr_iff] nz show ?thesis
    by (auto simp: c)
qed

subsection \<open>Aggregation\<close>

lemma fold_aggregate_step:
  "fold aggregate_step results (a, b, c, d, e, f, n) =
     (a @ concat (map (\<lambda>r. replicate (length (points (frame_i r))) (index (frame_i r))) (kept results)),
      b @ concat (map (\<lambda>r. points (frame_i r)) (kept results)),
      c @ concat (map (\<lambda>r. depth (frame_i r)) (kept results)),
      d @ concat (map (\<lambda>r. replicate (length (points (frame_i r))) (index (frame_j r))) (kept results)),
      e @ concat (map (\<lambda>r. points (frame_j r)) (kept results)),
      f @ concat (map (\<lambda>r. depth (frame_j r)) (kept results)),
      n + length (kept results))"
proof (induction results arbitrary: a b c d e f n)
  case Nil
  then show ?case by simp
next
  case (Cons r results)
  then show ?case by (cases r) (simp_all add: aggregate_step_def Let_def)
qed

lemma concat_replicate_positions:
  "concat (map (\<lambda>r. replicate (length (points (frame_i r))) (g r)) acc)
     = map (\<lambda>(r, l). g r) (positions acc)"
  by (induction acc) (simp_all add: positions_def comp_def map_replicate_trivial)

lemma concat_field_positions:
  "\<forall>r \<in> set acc. length (g r) = length (points (frame_i r)) \<Longrightarrow>
     concat (map g acc) = map (\<lambda>(r, l). g r ! l) (positions acc)"
proof (induction acc)
  case Nil
  then show ?case by (simp add: positions_def)
next
  case (Cons r acc)
  have "map (\<lambda>l. g r ! l) [0..<length (points (frame_i r))] = g r"
    using Cons.prems map_nth [of "g r"] by simp
  with Cons show ?case by (simp add: positions_def comp_def)
qed

lemma set_positions:
  "(r, l) \<in> set (positions acc) \<longleftrightarrow> r \<in> set acc \<and> l < length (points (frame_i r))"
  by (auto simp: positions_def image_iff)

lemma tqdm_imap_Inr:
  "tqdm_imap f xs = (ev, Inr ys) \<Longrightarrow> map (\<lambda>x. snd (f x)) xs = map Inr ys"
proof (induction xs arbitrary: ev ys)
  case Nil
  then show ?case by simp
next
  case (Cons x xs)
  then show ?case
    by (auto split: prod.splits sum.splits)
qed

lemma tqdm_imap_source:
  assumes "tqdm_imap f xs = (ev, Inr ys)" and "y \<in> set ys"
  shows "\<exists>x \<in> set xs. snd (f x) = Inr y"
proof -
  from assms(2) obtain k where k: "k < length ys" "ys ! k = y"
    by (auto simp: in_set_conv_nth)
  from tqdm_imap_Inr [OF assms(1)] have m: "map (\<lambda>x. snd (f x)) xs = map Inr ys" .
  then have "length xs = length ys" by (metis length_map)
  with m k have "snd (f (xs ! k)) = Inr y" "xs ! k \<in> set xs"
    by (metis nth_map, simp)
  then show ?thesis by blast
qed

lemma Some_in_kept: "r \<in> set (kept rs) \<longleftrightarrow> Some r \<in> set rs"
  by (induction rs) (auto simp: kept_def)

subsection \<open>The aggregated result\<close>

lemma frame_pairs_load [simp]: "frame_pairs (load_frame_data self) = frame_pairs self"
  by (simp add: load_frame_data_def split: prod.splits)

lemma accepted_result:
  assumes "tqdm_imap (get_image_features cv self) pairs = (ev, Inr results)"
    and "r \<in> set (kept results)"
  shows "\<exists>i j ev' cs. (i, j) \<in> set pairs
           \<and> get_image_features cv self (i, j) = (ev', Inr (Some r))
           \<and> set cs \<subseteq> set (pair_correspondences cv self (i, j))
           \<and> r = \<lparr>frame_i = \<lparr>index = i, points = map fst cs,
                                depth = map (fst \<circ> snd \<circ> snd) cs\<rparr>,
                     frame_j = \<lparr>index = j, points = map (fst \<circ> snd) cs,
                                depth = map (snd \<circ> snd \<circ> snd) cs\<rparr>\<rparr>"
proof -
  from assms(2) have "Some r \<in> set results" by (simp add: Some_in_kept)
  from tqdm_imap_source [OF assms(1) this] obtain fp where
    fp: "fp \<in> set pairs" "snd (get_image_features cv self fp) = Inr (Some r)"
    by blast
  obtain i j where ij: "fp = (i, j)" by (cases fp)
  obtain ev' where g: "get_image_features cv self (i, j) = (ev', Inr (Some r))"
    using fp(2) ij by (cases "get_image_features cv self (i, j)") simp
  from get_image_features_Some [OF g] fp(1) ij g show ?thesis by blast
qed

lemma accepted_aligned:
  assumes "tqdm_imap (get_image_features cv self) pairs = (ev, Inr results)"
    and "r \<in> set (kept results)"
  shows "length (points (frame_j r)) = length (points (frame_i r))
       \<and> length (depth (frame_i r)) = length (points (frame_i r))
       \<and> length (depth (frame_j r)) = length (points (frame_i r))"
  using accepted_result [OF assms] by auto

lemma extract_structure:
  assumes "extract_feature_points cv self0 = (ev, Inr (fs, stats))"
  shows "\<exists>results.
           tqdm_imap (get_image_features cv (load_frame_data self0)) (frame_pairs self0)
             = (ev, Inr results)
         \<and> index (frame_i fs) = map (\<lambda>(r, l). index (frame_i r)) (positions (kept results))
         \<and> points (frame_i fs) = map (\<lambda>(r, l). points (frame_i r) ! l) (positions (kept results))
         \<and> depth (frame_i fs) = map (\<lambda>(r, l). depth (frame_i r) ! l) (positions (kept results))
         \<and> index (frame_j fs) = map (\<lambda>(r, l). index (frame_j r)) (positions (kept results))
         \<and> points (frame_j fs) = map (\<lambda>(r, l). points (frame_j r) ! l) (positions (kept results))
         \<and> depth (frame_j fs) = map (\<lambda>(r, l). depth (frame_j r) ! l) (positions (kept results))"
proof -
  let ?self = "load_frame_data self0"
  from assms obtain results where
    t: "tqdm_imap (get_image_features cv ?self) (frame_pairs self0) = (ev, Inr results)"
    by (auto simp: extract_feature_points_def Let_def split: prod.splits sum.splits)
  let ?acc = "kept results"
  from assms t have fs:
    "fs = \<lparr>frame_i = \<lparr>index = concat (map (\<lambda>r. replicate (length (points (frame_i r))) (index (frame_i r))) ?acc),
                      points = concat (map (\<lambda>r. points (frame_i r)) ?acc),
                      depth = concat (map (\<lambda>r. depth (frame_i r)) ?acc)\<rparr>,
           frame_j = \<lparr>index = concat (map (\<lambda>r. replicate (length (points (frame_i r))) (index (frame_j r))) ?acc),
                      points = concat (map (\<lambda>r. points (frame_j r)) ?acc),
                      depth = concat (map (\<lambda>r. depth (frame_j r)) ?acc)\<rparr>\<rparr>"
    by (auto simp: extract_feature_points_def Let_def fold_aggregate_step split: sum.splits)
  note al = accepted_aligned [OF t]
  have 1: "concat (map (\<lambda>r. points (frame_i r)) ?acc)
           = map (\<lambda>(r, l). points (frame_i r) ! l) (positions ?acc)"
    by (rule concat_field_positions) simp
  have 2: "concat (map (\<lambda>r. depth (frame_i r)) ?acc)
           = map (\<lambda>(r, l). depth (frame_i r) ! l) (positions ?acc)"
    by (rule concat_field_positions) (use al in blast)
  have 3: "concat (map (\<lambda>r. points (frame_j r)) ?acc)
           = map (\<lambda>(r, l). points (frame_j r) ! l) (positions ?acc)"
    by (rule concat_field_positions) (use al in blast)
  have 4: "concat (map (\<lambda>r. depth (frame_j r)) ?acc)
           = map (\<lambda>(r, l). depth (frame_j r) ! l) (positions ?acc)"
    by (rule concat_field_positions) (use al in blast)
  show ?thesis
    using t unfolding fs by (simp add: concat_replicate_positions 1 2 3 4)
qed

subsection \<open>The ratio filter\<close>

text \<open>
  C8. When \<^verbatim>\<open>_filter_matches\<close> returns, the \<open>k\<close>-th candidate match, with best
  distance that of \<open>m\<close> and second-best distance that of \<open>n\<close>, is marked as accepted
  exactly when the distance of \<open>m\<close> is at most the product \<^verbatim>\<open>0.7 * n.distance\<close> as the
  program computes it, in double precision (the double nearest to \<open>0.7\<close> times the
  distance of \<open>n\<close>, rounded to the nearest double), and the depths at its two end points
  are both different from zero; and the correspondences that are returned are those of
  the marked matches, in order. The factor is a literal of the function: nothing of the
  extractor's configuration enters the test.
\<close>

theorem ratio_filter_iff:
  assumes "filter_matches self i j kpi kpj matches = Inr (ps_i, ps_j, ds_i, ds_j, mm)"
  shows "(\<forall>k m n. k < length matches \<and> matches ! k = [m, n] \<longrightarrow>
            (mm ! k = (1, 0) \<longleftrightarrow>
               distance m \<le> double_mul double_0_7 (distance n)
               \<and> (\<exists>p q d e. endpoints self i j kpi kpj m = Inr (p, q, d, e) \<and> d \<noteq> 0 \<and> e \<noteq> 0)))
       \<and> zip ps_i (zip ps_j (zip ds_i ds_j)) =
           map (\<lambda>k. projr (endpoints self i j kpi kpj (hd (matches ! k))))
               (filter (\<lambda>k. mm ! k = (1, 0)) [0..<length matches])"
proof -
  note marks = filter_matches_marks [OF assms]
  have "mm ! k = (1, 0) \<longleftrightarrow>
               distance m \<le> double_mul double_0_7 (distance n)
               \<and> (\<exists>p q d e. endpoints self i j kpi kpj m = Inr (p, q, d, e) \<and> d \<noteq> 0 \<and> e \<noteq> 0)"
    if "k < length matches" "matches ! k = [m, n]" for k m n
  proof -
    from marks that
    have "mm ! k = (1, 0) \<longleftrightarrow> (\<exists>c. decision self i j kpi kpj [m, n] = Inr (Some c))"
      by auto
    also have "\<dots> \<longleftrightarrow> distance m \<le> double_mul double_0_7 (distance n)
               \<and> (\<exists>p q d e. endpoints self i j kpi kpj m = Inr (p, q, d, e) \<and> d \<noteq> 0 \<and> e \<noteq> 0)"
      unfolding decision_Some_iff by auto
    finally show ?thesis .
  qed
  with marks show ?thesis by blast
qed

lemma example_filter_matches:
  "filter_matches example_loaded 0 1 example_key_points example_key_points example_matches
     = Inr ([(0, 0), (2, 0)], [(1 / 2, 1), (0, 0)], [1, - 1], [2, 1],
            [(1, 0), (0, 0), (0, 0), (1, 0)])"
  by code_simp

theorem ratio_filter_iff_witness:
  "filter_matches example_loaded 0 1 example_key_points example_key_points example_matches
     = Inr ([(0, 0), (2, 0)], [(1 / 2, 1), (0, 0)], [1, - 1], [2, 1],
            [(1, 0), (0, 0), (0, 0), (1, 0)])
   \<and> zip [(0, 0), (2, 0)] (zip [(1 / 2, 1), (0, 0)] (zip [1, - 1] [2, 1])) =
       map (\<lambda>k. projr (endpoints example_loaded 0 1 example_key_points example_key_points
                          (hd (example_matches ! k))))
           (filter (\<lambda>k. ([(1, 0), (0, 0), (0, 0), (1, 0)] :: (nat \<times> nat) list) ! k = (1, 0))
                   [0..<length example_matches])"
proof -
  note r = ratio_filter_iff [OF example_filter_matches]
  show ?thesis
    by (rule conjI [OF example_filter_matches conjunct2 [OF r]])
qed

text \<open>
  With exact arithmetic in place of the program's the test would be another one. For the
  distances \<open>63\<close> and \<open>90\<close> the exact product is \<open>63\<close>, but the double-precision product
  is the double just below \<open>63\<close>: the match is skipped, although both its depths are
  different from zero.
\<close>

lemma example_boundary_product: "double_mul double_0_7 90 = 63 - 1 / 2 ^ 47"
  by code_simp

theorem ratio_filter_exact_counterexample:
  "filter_matches example_loaded 0 1 example_key_points example_key_points boundary_matches
     = Inr ([], [], [], [], [(0, 0)])
   \<and> boundary_matches = [[\<lparr>distance = 63, queryIdx = 0, trainIdx = 3\<rparr>,
                           \<lparr>distance = 90, queryIdx = 0, trainIdx = 1\<rparr>]]
   \<and> (63 :: real) \<le> 0.7 * 90
   \<and> endpoints example_loaded 0 1 example_key_points example_key_points
         \<lparr>distance = 63, queryIdx = 0, trainIdx = 3\<rparr> = Inr ((0, 0), (1 / 2, 1), 1, 2)
   \<and> double_mul double_0_7 90 = 63 - 1 / 2 ^ 47"
proof -
  have a: "filter_matches example_loaded 0 1 example_key_points example_key_points boundary_matches
     = Inr ([], [], [], [], [(0, 0)])"
    by code_simp
  have b: "boundary_matches = [[\<lparr>distance = 63, queryIdx = 0, trainIdx = 3\<rparr>,
                           \<lparr>distance = 90, queryIdx = 0, trainIdx = 1\<rparr>]]"
    by (simp add: boundary_matches_def)
  have c: "(63 :: real) \<le> 0.7 * 90" by simp
  have d: "endpoints example_loaded 0 1 example_key_points example_key_points
         \<lparr>distance = 63, queryIdx = 0, trainIdx = 3\<rparr> = Inr ((0, 0), (1 / 2, 1), 1, 2)"
    by code_simp
  show ?thesis
    by (intro conjI) (rule a b c d example_boundary_product)+
qed

subsection \<open>Depths of the emitted correspondences\<close>

lemma example_run:
  "extract_feature_points example_cv (example_extractor 2 example_negative_map [(0, 1)] 5) =
     (example_events, Inr (example_feature_set, example_stats))"
  by code_simp

lemma decision_nonzero:
  "decision self i j kpi kpj mn = Inr (Some c) \<Longrightarrow>
     fst (snd (snd c)) \<noteq> 0 \<and> snd (snd (snd c)) \<noteq> 0"
proof -
  assume d: "decision self i j kpi kpj mn = Inr (Some c)"
  then obtain m n where "mn = [m, n]"
    by (auto simp: decision_def split: list.splits)
  with d show ?thesis by (simp add: decision_Some_iff)
qed

lemma filter_matches_nonzero:
  assumes "filter_matches self i j kpi kpj matches = Inr (ps_i, ps_j, ds_i, ds_j, mm)"
  shows "0 \<notin> set ds_i \<and> 0 \<notin> set ds_j"
proof -
  from filter_matches_char [OF assms] obtain rs where rs:
    "map (decision self i j kpi kpj) matches = map Inr rs"
    "ds_i = map (fst \<circ> snd \<circ> snd) (kept rs)"
    "ds_j = map (snd \<circ> snd \<circ> snd) (kept rs)"
    by blast
  have "fst (snd (snd c)) \<noteq> 0 \<and> snd (snd (snd c)) \<noteq> 0" if "c \<in> set (kept rs)" for c
  proof -
    from that have "c \<in> set (concat (map (\<lambda>mn. case decision self i j kpi kpj mn of
                               Inr (Some c) \<Rightarrow> [c] | _ \<Rightarrow> []) matches))"
      by (simp only: kept_decisions [OF rs(1)])
    then obtain mn where
      "c \<in> set (case decision self i j kpi kpj mn of Inr (Some c) \<Rightarrow> [c] | _ \<Rightarrow> [])"
      by auto
    then have "decision self i j kpi kpj mn = Inr (Some c)"
      by (auto split: sum.splits option.splits)
    then show ?thesis by (rule decision_nonzero)
  qed
  then show ?thesis unfolding rs(2,3) by auto
qed

lemma extract_depths_nonzero:
  assumes "extract_feature_points cv self0 = (ev, Inr (fs, stats))"
  shows "\<forall>d \<in> set (depth (frame_i fs)) \<union> set (depth (frame_j fs)). d \<noteq> 0"
proof -
  from extract_structure [OF assms] obtain results where
    t: "tqdm_imap (get_image_features cv (load_frame_data self0)) (frame_pairs self0)
          = (ev, Inr results)"
    and di: "depth (frame_i fs) = map (\<lambda>(r, l). depth (frame_i r) ! l) (positions (kept results))"
    and dj: "depth (frame_j fs) = map (\<lambda>(r, l). depth (frame_j r) ! l) (positions (kept results))"
    by blast
  have nz: "depth (frame_i r) ! l \<noteq> 0 \<and> depth (frame_j r) ! l \<noteq> 0"
    if "(r, l) \<in> set (positions (kept results))" for r l
  proof -
    from that have r: "r \<in> set (kept results)" and l: "l < length (points (frame_i r))"
      by (simp_all add: set_positions)
    from accepted_result [OF t r] obtain i j cs where
      cs: "set cs \<subseteq> set (pair_correspondences cv (load_frame_data self0) (i, j))"
      and rr: "r = \<lparr>frame_i = \<lparr>index = i, points = map fst cs,
                                depth = map (fst \<circ> snd \<circ> snd) cs\<rparr>,
                     frame_j = \<lparr>index = j, points = map (fst \<circ> snd) cs,
                                depth = map (snd \<circ> snd \<circ> snd) cs\<rparr>\<rparr>"
      by blast
    from l rr have "l < length cs" by simp
    then have "cs ! l \<in> set (pair_correspondences cv (load_frame_data self0) (i, j))"
      using cs by (meson nth_mem subsetD)
    from pair_correspondences_nonzero [OF this] \<open>l < length cs\<close> show ?thesis
      by (simp add: rr)
  qed
  show ?thesis
    unfolding di dj using nz by auto
qed

lemma emitted_lookup:
  assumes "extract_feature_points cv self0 = (ev, Inr (fs, stats))"
    and "k < length (points (frame_i fs))"
  shows "depth_at (depth_maps (load_frame_data self0)) (index (frame_i fs) ! k)
           (points (frame_i fs) ! k) = Inr (depth (frame_i fs) ! k)
       \<and> depth_at (depth_maps (load_frame_data self0)) (index (frame_j fs) ! k)
           (points (frame_j fs) ! k) = Inr (depth (frame_j fs) ! k)
       \<and> depth (frame_i fs) ! k \<noteq> 0 \<and> depth (frame_j fs) ! k \<noteq> 0"
proof -
  let ?self = "load_frame_data self0"
  from extract_structure [OF assms(1)] obtain results where
    t: "tqdm_imap (get_image_features cv ?self) (frame_pairs self0) = (ev, Inr results)"
    and ii: "index (frame_i fs) = map (\<lambda>(r, l). index (frame_i r)) (positions (kept results))"
    and pi: "points (frame_i fs) = map (\<lambda>(r, l). points (frame_i r) ! l) (positions (kept results))"
    and di: "depth (frame_i fs) = map (\<lambda>(r, l). depth (frame_i r) ! l) (positions (kept results))"
    and ij: "index (frame_j fs) = map (\<lambda>(r, l). index (frame_j r)) (positions (kept results))"
    and pj: "points (frame_j fs) = map (\<lambda>(r, l). points (frame_j r) ! l) (positions (kept results))"
    and dj: "depth (frame_j fs) = map (\<lambda>(r, l). depth (frame_j r) ! l) (positions (kept results))"
    by blast
  let ?P = "positions (kept results)"
  have k: "k < length ?P" using assms(2) by (simp add: pi)
  obtain r l where rl: "?P ! k = (r, l)" by (cases "?P ! k")
  with k have "(r, l) \<in> set ?P" by (metis nth_mem)
  then have r: "r \<in> set (kept results)" and l: "l < length (points (frame_i r))"
    by (simp_all add: set_positions)
  from accepted_result [OF t r] obtain i j cs where
    cs: "set cs \<subseteq> set (pair_correspondences cv ?self (i, j))"
    and rr: "r = \<lparr>frame_i = \<lparr>index = i, points = map fst cs,
                              depth = map (fst \<circ> snd \<circ> snd) cs\<rparr>,
                   frame_j = \<lparr>index = j, points = map (fst \<circ> snd) cs,
                              depth = map (snd \<circ> snd \<circ> snd) cs\<rparr>\<rparr>"
    by blast
  have lc: "l < length cs" using l rr by simp
  then have "cs ! l \<in> set (pair_correspondences cv ?self (i, j))"
    using cs by (meson nth_mem subsetD)
  note look = pair_correspondences_lookup [OF this]
  have at: "index (frame_i fs) ! k = i" "index (frame_j fs) ! k = j"
    "points (frame_i fs) ! k = fst (cs ! l)" "points (frame_j fs) ! k = fst (snd (cs ! l))"
    "depth (frame_i fs) ! k = fst (snd (snd (cs ! l)))"
    "depth (frame_j fs) ! k = snd (snd (snd (cs ! l)))"
    using k rl lc by (simp_all add: ii ij pi pj di dj rr)
  show ?thesis unfolding at using look by simp
qed

text \<open>
  C1. As the code has it: the depth test of \<^verbatim>\<open>_filter_matches\<close> discards a match
  when a depth it looks up is equal to zero, and only then. For a match that passes the
  ratio test and whose two key points and two depths (at the rounded coordinates of the
  key points) are found, the match is marked as accepted exactly when both depths are
  different from zero: a zero depth at either end point discards it, a negative depth
  does not. The correspondences that \<^verbatim>\<open>_filter_matches\<close> returns are those of the
  marked matches, with the depths looked up. For every correspondence of a returned
  feature set, each depth is the depth looked up at the rounded coordinates of its point
  in its frame, and it is different from zero.
\<close>

theorem emitted_depths_nonzero:
  "(extract_feature_points cv self0 = (ev, Inr (fs, stats)) \<longrightarrow>
      (\<forall>k < length (points (frame_i fs)).
         depth_at (depth_maps (load_frame_data self0)) (index (frame_i fs) ! k)
           (points (frame_i fs) ! k) = Inr (depth (frame_i fs) ! k)
         \<and> depth_at (depth_maps (load_frame_data self0)) (index (frame_j fs) ! k)
             (points (frame_j fs) ! k) = Inr (depth (frame_j fs) ! k)
         \<and> depth (frame_i fs) ! k \<noteq> 0 \<and> depth (frame_j fs) ! k \<noteq> 0)
      \<and> (\<forall>d \<in> set (depth (frame_i fs)) \<union> set (depth (frame_j fs)). d \<noteq> 0))
   \<and> (filter_matches self i j key_points_i key_points_j matches
         = Inr (ps_i, ps_j, ds_i, ds_j, matches_mask) \<longrightarrow>
      (\<forall>k m n kp_i kp_j d e.
         k < length matches \<and> matches ! k = [m, n]
         \<and> distance m \<le> double_mul double_0_7 (distance n)
         \<and> py_index key_points_i (queryIdx m) = Inr kp_i
         \<and> depth_at (depth_maps self) i (pt kp_i) = Inr d
         \<and> py_index key_points_j (trainIdx m) = Inr kp_j
         \<and> depth_at (depth_maps self) j (pt kp_j) = Inr e \<longrightarrow>
         (matches_mask ! k = (1, 0) \<longleftrightarrow> d \<noteq> 0 \<and> e \<noteq> 0))
      \<and> zip ps_i (zip ps_j (zip ds_i ds_j)) =
           map (\<lambda>k. projr (endpoints self i j key_points_i key_points_j (hd (matches ! k))))
               (filter (\<lambda>k. matches_mask ! k = (1, 0)) [0..<length matches])
      \<and> 0 \<notin> set ds_i \<and> 0 \<notin> set ds_j)"
proof (intro conjI impI)
  assume x: "extract_feature_points cv self0 = (ev, Inr (fs, stats))"
  show "\<forall>k < length (points (frame_i fs)).
         depth_at (depth_maps (load_frame_data self0)) (index (frame_i fs) ! k)
           (points (frame_i fs) ! k) = Inr (depth (frame_i fs) ! k)
         \<and> depth_at (depth_maps (load_frame_data self0)) (index (frame_j fs) ! k)
             (points (frame_j fs) ! k) = Inr (depth (frame_j fs) ! k)
         \<and> depth (frame_i fs) ! k \<noteq> 0 \<and> depth (frame_j fs) ! k \<noteq> 0"
    using emitted_lookup [OF x] by blast
  show "\<forall>d \<in> set (depth (frame_i fs)) \<union> set (depth (frame_j fs)). d \<noteq> 0"
    using x by (rule extract_depths_nonzero)
next
  assume f: "filter_matches self i j key_points_i key_points_j matches
         = Inr (ps_i, ps_j, ds_i, ds_j, matches_mask)"
  show "\<forall>k m n kp_i kp_j d e.
         k < length matches \<and> matches ! k = [m, n]
         \<and> distance m \<le> double_mul double_0_7 (distance n)
         \<and> py_index key_points_i (queryIdx m) = Inr kp_i
         \<and> depth_at (depth_maps self) i (pt kp_i) = Inr d
         \<and> py_index key_points_j (trainIdx m) = Inr kp_j
         \<and> depth_at (depth_maps self) j (pt kp_j) = Inr e \<longrightarrow>
         (matches_mask ! k = (1, 0) \<longleftrightarrow> d \<noteq> 0 \<and> e \<noteq> 0)"
    using depth_test_iff [OF f] by blast
  show "zip ps_i (zip ps_j (zip ds_i ds_j)) =
           map (\<lambda>k. projr (endpoints self i j key_points_i key_points_j (hd (matches ! k))))
               (filter (\<lambda>k. matches_mask ! k = (1, 0)) [0..<length matches])"
    using filter_matches_marks [OF f] by (rule conjunct2)
  from filter_matches_nonzero [OF f] show "0 \<notin> set ds_i" "0 \<notin> set ds_j"
    by simp_all
qed

lemma example_negative_match:
  "3 < length example_matches
   \<and> example_matches ! 3 = [\<lparr>distance = 1, queryIdx = 2, trainIdx = 0\<rparr>,
                            \<lparr>distance = 10, queryIdx = 2, trainIdx = 3\<rparr>]
   \<and> distance \<lparr>distance = 1, queryIdx = 2, trainIdx = 0\<rparr>
       \<le> double_mul double_0_7 (distance \<lparr>distance = 10, queryIdx = 2, trainIdx = 3\<rparr>)
   \<and> py_index example_key_points (queryIdx \<lparr>distance = 1, queryIdx = 2, trainIdx = 0\<rparr>)
       = Inr \<lparr>pt = (2, 0)\<rparr>
   \<and> depth_at (depth_maps example_loaded) 0 (pt \<lparr>pt = (2, 0)\<rparr>) = Inr (- 1)
   \<and> py_index example_key_points (trainIdx \<lparr>distance = 1, queryIdx = 2, trainIdx = 0\<rparr>)
       = Inr \<lparr>pt = (0, 0)\<rparr>
   \<and> depth_at (depth_maps example_loaded) 1 (pt \<lparr>pt = (0, 0)\<rparr>) = Inr 1"
  by code_simp

lemma example_zero_match:
  "2 < length example_matches
   \<and> example_matches ! 2 = [\<lparr>distance = 1, queryIdx = 1, trainIdx = 0\<rparr>,
                            \<lparr>distance = 10, queryIdx = 1, trainIdx = 3\<rparr>]
   \<and> distance \<lparr>distance = 1, queryIdx = 1, trainIdx = 0\<rparr>
       \<le> double_mul double_0_7 (distance \<lparr>distance = 10, queryIdx = 1, trainIdx = 3\<rparr>)
   \<and> py_index example_key_points (queryIdx \<lparr>distance = 1, queryIdx = 1, trainIdx = 0\<rparr>)
       = Inr \<lparr>pt = (1, 0)\<rparr>
   \<and> depth_at (depth_maps example_loaded) 0 (pt \<lparr>pt = (1, 0)\<rparr>) = Inr 0
   \<and> py_index example_key_points (trainIdx \<lparr>distance = 1, queryIdx = 1, trainIdx = 0\<rparr>)
       = Inr \<lparr>pt = (0, 0)\<rparr>
   \<and> depth_at (depth_maps example_loaded) 1 (pt \<lparr>pt = (0, 0)\<rparr>) = Inr 1"
  by code_simp

theorem emitted_depths_nonzero_witness:
  "extract_feature_points example_cv (example_extractor 2 example_negative_map [(0, 1)] 5) =
     (example_events, Inr (example_feature_set, example_stats))
   \<and> depth_at (depth_maps (load_frame_data (example_extractor 2 example_negative_map [(0, 1)] 5)))
         (index (frame_i example_feature_set) ! 0) (points (frame_i example_feature_set) ! 0)
       = Inr (depth (frame_i example_feature_set) ! 0)
   \<and> depth (frame_i example_feature_set) ! 0 = - 1
   \<and> filter_matches example_loaded 0 1 example_key_points example_key_points example_matches
     = Inr ([(0, 0), (2, 0)], [(1 / 2, 1), (0, 0)], [1, - 1], [2, 1],
            [(1, 0), (0, 0), (0, 0), (1, 0)])
   \<and> ((([(1, 0), (0, 0), (0, 0), (1, 0)] :: (nat \<times> nat) list) ! 3 = (1, 0))
        = ((- 1 :: real) \<noteq> 0 \<and> (1 :: real) \<noteq> 0))
   \<and> ((([(1, 0), (0, 0), (0, 0), (1, 0)] :: (nat \<times> nat) list) ! 2 = (1, 0))
        = ((0 :: real) \<noteq> 0 \<and> (1 :: real) \<noteq> 0))
   \<and> 0 \<notin> set [1, - 1 :: real] \<and> 0 \<notin> set [2, 1 :: real]"
proof -
  note t = emitted_depths_nonzero
    [of example_cv "example_extractor 2 example_negative_map [(0, 1)] 5"
        example_events example_feature_set example_stats
        example_loaded 0 1 example_key_points example_key_points example_matches
        "[(0, 0), (2, 0)]" "[(1 / 2, 1), (0, 0)]" "[1, - 1]" "[2, 1]"
        "[(1, 0), (0, 0), (0, 0), (1, 0)]"]
  note run = t [THEN conjunct1, THEN mp, OF example_run, THEN conjunct1]
  note flt = t [THEN conjunct2, THEN mp, OF example_filter_matches]
  have k0: "0 < length (points (frame_i example_feature_set))"
    by (simp add: example_feature_set_def)
  from run [rule_format, OF k0]
  have a: "depth_at (depth_maps (load_frame_data (example_extractor 2 example_negative_map [(0, 1)] 5)))
         (index (frame_i example_feature_set) ! 0) (points (frame_i example_feature_set) ! 0)
       = Inr (depth (frame_i example_feature_set) ! 0)"
    by (rule conjunct1)
  have b: "depth (frame_i example_feature_set) ! 0 = - 1"
    by (simp add: example_feature_set_def)
  note c = flt [THEN conjunct1, rule_format, OF example_negative_match]
  note d = flt [THEN conjunct1, rule_format, OF example_zero_match]
  note e = flt [THEN conjunct2, THEN conjunct2, THEN conjunct1]
  note f = flt [THEN conjunct2, THEN conjunct2, THEN conjunct2]
  show ?thesis
    by (intro conjI) (rule example_run a b example_filter_matches c d e f)+
qed

text \<open>
  Strictly positive depths are not guaranteed. In the example run the depth map
  holds \<open>-1\<close> at the first key point, and that correspondence is part of the returned
  feature set.
\<close>

theorem emitted_depth_positive_counterexample:
  "extract_feature_points example_cv (example_extractor 2 example_negative_map [(0, 1)] 5) =
     (example_events, Inr (example_feature_set, example_stats))
   \<and> hd (depth (frame_i example_feature_set)) = - 1
   \<and> depth_at (depth_maps (load_frame_data (example_extractor 2 example_negative_map [(0, 1)] 5)))
         0 (0, 0) = Inr (- 1)
   \<and> \<not> (0 :: real) < - 1"
proof -
  have a: "depth_at (depth_maps (load_frame_data (example_extractor 2 example_negative_map [(0, 1)] 5)))
         0 (0, 0) = Inr (- 1)"
    by code_simp
  have b: "hd (depth (frame_i example_feature_set)) = - 1"
    by (simp add: example_feature_set_def)
  have c: "\<not> (0 :: real) < - 1" by simp
  show ?thesis
    by (intro conjI) (rule example_run a b c)+
qed

subsection \<open>The two sides of the aggregated result\<close>

lemma nth_projections:
  "l < length cs \<Longrightarrow>
     (map fst cs ! l, map (fst \<circ> snd) cs ! l, map (fst \<circ> snd \<circ> snd) cs ! l,
      map (snd \<circ> snd \<circ> snd) cs ! l) = cs ! l"
  by (simp add: prod_eq_iff)

text \<open>
  C7. The feature set that \<^verbatim>\<open>extract_feature_points\<close> returns holds six lists of one
  length. At every position \<open>k\<close> the two frame indices are those of a frame pair of the
  extractor for which \<^verbatim>\<open>_get_image_features\<close> returned a result, and the two points
  and two depths at \<open>k\<close> are the two points and two depths at one position of that
  result, which is one correspondence of that frame pair that passed the ratio test and
  the depth test.
\<close>

theorem feature_set_parallel:
  assumes "extract_feature_points cv self0 = (ev, Inr (fs, stats))"
  shows "\<exists>n. length (index (frame_i fs)) = n \<and> length (points (frame_i fs)) = n
            \<and> length (depth (frame_i fs)) = n
            \<and> length (index (frame_j fs)) = n \<and> length (points (frame_j fs)) = n
            \<and> length (depth (frame_j fs)) = n
            \<and> (\<forall>k < n. \<exists>frame_pair ev' r l.
                  frame_pair \<in> set (frame_pairs self0)
                  \<and> get_image_features cv (load_frame_data self0) frame_pair
                      = (ev', Inr (Some r))
                  \<and> l < length (points (frame_i r))
                  \<and> frame_pair = (index (frame_i fs) ! k, index (frame_j fs) ! k)
                  \<and> correspondence_at fs k = correspondence_at r l
                  \<and> correspondence_at r l
                      \<in> set (pair_correspondences cv (load_frame_data self0) frame_pair))"
proof -
  let ?self = "load_frame_data self0"
  from extract_structure [OF assms] obtain results where
    t: "tqdm_imap (get_image_features cv ?self) (frame_pairs self0) = (ev, Inr results)"
    and ii: "index (frame_i fs) = map (\<lambda>(r, l). index (frame_i r)) (positions (kept results))"
    and pi: "points (frame_i fs) = map (\<lambda>(r, l). points (frame_i r) ! l) (positions (kept results))"
    and di: "depth (frame_i fs) = map (\<lambda>(r, l). depth (frame_i r) ! l) (positions (kept results))"
    and ij: "index (frame_j fs) = map (\<lambda>(r, l). index (frame_j r)) (positions (kept results))"
    and pj: "points (frame_j fs) = map (\<lambda>(r, l). points (frame_j r) ! l) (positions (kept results))"
    and dj: "depth (frame_j fs) = map (\<lambda>(r, l). depth (frame_j r) ! l) (positions (kept results))"
    by blast
  let ?P = "positions (kept results)"
  have each: "\<exists>frame_pair ev' r l.
                  frame_pair \<in> set (frame_pairs self0)
                  \<and> get_image_features cv ?self frame_pair = (ev', Inr (Some r))
                  \<and> l < length (points (frame_i r))
                  \<and> frame_pair = (index (frame_i fs) ! k, index (frame_j fs) ! k)
                  \<and> correspondence_at fs k = correspondence_at r l
                  \<and> correspondence_at r l \<in> set (pair_correspondences cv ?self frame_pair)"
    if k: "k < length ?P" for k
  proof -
    obtain r l where rl: "?P ! k = (r, l)" by (cases "?P ! k")
    with k have "(r, l) \<in> set ?P" by (metis nth_mem)
    then have r: "r \<in> set (kept results)" and l: "l < length (points (frame_i r))"
      by (simp_all add: set_positions)
    from accepted_result [OF t r] obtain i j ev' cs where
      fp: "(i, j) \<in> set (frame_pairs self0)"
      and g: "get_image_features cv ?self (i, j) = (ev', Inr (Some r))"
      and cs: "set cs \<subseteq> set (pair_correspondences cv ?self (i, j))"
      and rr: "r = \<lparr>frame_i = \<lparr>index = i, points = map fst cs,
                                depth = map (fst \<circ> snd \<circ> snd) cs\<rparr>,
                     frame_j = \<lparr>index = j, points = map (fst \<circ> snd) cs,
                                depth = map (snd \<circ> snd \<circ> snd) cs\<rparr>\<rparr>"
      by blast
    have lc: "l < length cs" using l rr by simp
    have idx: "(i, j) = (index (frame_i fs) ! k, index (frame_j fs) ! k)"
      using k rl by (simp add: ii ij rr)
    have same: "correspondence_at fs k = correspondence_at r l"
      using k rl by (simp add: correspondence_at_def pi pj di dj)
    have "correspondence_at r l = cs ! l"
      unfolding correspondence_at_def rr using nth_projections [OF lc] by simp
    then have mem: "correspondence_at r l \<in> set (pair_correspondences cv ?self (i, j))"
      using cs lc by (metis nth_mem subsetD)
    from fp g l idx same mem show ?thesis by blast
  qed
  have "length (index (frame_i fs)) = length ?P" "length (points (frame_i fs)) = length ?P"
    "length (depth (frame_i fs)) = length ?P" "length (index (frame_j fs)) = length ?P"
    "length (points (frame_j fs)) = length ?P" "length (depth (frame_j fs)) = length ?P"
    by (simp_all add: ii pi di ij pj dj)
  with each show ?thesis by blast
qed

theorem feature_set_parallel_witness:
  "extract_feature_points example_cv (example_extractor 2 example_negative_map [(0, 1)] 5) =
     (example_events, Inr (example_feature_set, example_stats))
   \<and> length (index (frame_i example_feature_set)) = 5
   \<and> (\<exists>n. length (index (frame_i example_feature_set)) = n
          \<and> length (points (frame_i example_feature_set)) = n
          \<and> length (depth (frame_i example_feature_set)) = n
          \<and> length (index (frame_j example_feature_set)) = n
          \<and> length (points (frame_j example_feature_set)) = n
          \<and> length (depth (frame_j example_feature_set)) = n
          \<and> (\<forall>k < n. \<exists>frame_pair ev' r l.
                  frame_pair \<in> set (frame_pairs (example_extractor 2 example_negative_map [(0, 1)] 5))
                  \<and> get_image_features example_cv
                        (load_frame_data (example_extractor 2 example_negative_map [(0, 1)] 5))
                        frame_pair
                      = (ev', Inr (Some r))
                  \<and> l < length (points (frame_i r))
                  \<and> frame_pair = (index (frame_i example_feature_set) ! k,
                                  index (frame_j example_feature_set) ! k)
                  \<and> correspondence_at example_feature_set k = correspondence_at r l
                  \<and> correspondence_at r l
                      \<in> set (pair_correspondences example_cv
                          (load_frame_data (example_extractor 2 example_negative_map [(0, 1)] 5))
                          frame_pair)))"
proof -
  have five: "length (index (frame_i example_feature_set)) = 5"
    by (simp add: example_feature_set_def)
  show ?thesis
    by (intro conjI) (rule example_run five feature_set_parallel [OF example_run])+
qed

subsection \<open>Frame pairs with too few key points\<close>















end
